theory Spec2Isabelle
  imports Main "HOL-Library.AList"
begin

section \<open>Values, exceptions and estimator objects\<close>

text \<open>
  The pipeline of \<^verbatim>\<open>src/mldsutils/pipeline.py\<close> is dynamically typed glue code: it
  inspects its steps with \<^verbatim>\<open>hasattr\<close>, calls their methods and unpacks what they
  return. The values that flow through it (feature matrices, label vectors, index lists,
  tuples returned by steps, \<^verbatim>\<open>None\<close>) are modelled by one type of Python values.
  \<open>PySelf\<close> is the value of \<^verbatim>\<open>return self\<close>: the object whose method was called. It is
  the only object a method can return in the model; it is not \<^verbatim>\<open>None\<close> and it cannot be
  unpacked.
\<close>

datatype pyval =
    PyNone
  | PySelf
  | PyInt int
  | PyStr string
  | PyList "pyval list"
  | PyTuple "pyval list"

text \<open>Keyword arguments: a dictionary in insertion order, as \<^verbatim>\<open>**fit_params\<close> is.\<close>

type_synonym kwargs = "(string \<times> pyval) list"

text \<open>
  The exceptions the code can raise. \<open>Raised v\<close> is an exception raised inside a
  user-supplied step.
\<close>

datatype exn =
    TypeError
  | ValueError
  | KeyError
  | AttributeError
  | IndexError
  | UnboundLocalError
  | Raised pyval

text \<open>The method names the pipeline looks for on a step.\<close>

datatype attr = Fit | FitTransform | FitResample | FitPredict | Predict | PredictProba | Transform

text \<open>
  An estimator object: the methods it exposes (\<open>attrs\<close>, what \<^verbatim>\<open>hasattr\<close> sees),
  whether it is an instance of the host framework's pipeline class, its mutable state,
  and the behaviour of its methods. A method receives the positional arguments, the keyword
  arguments and the object's state; it returns a value or raises, and leaves a new state.
  \<open>calls\<close> is the history of the methods invoked on the object; the code has no such
  field, it is kept to state which methods a pipeline operation calls.
\<close>

record estimator =
  attrs :: "attr list"
  is_pipeline :: bool
  st :: pyval
  impl :: "attr \<Rightarrow> pyval list \<Rightarrow> kwargs \<Rightarrow> pyval \<Rightarrow> (exn + pyval) \<times> pyval"
  calls :: "attr list"

text \<open>A step of the pipeline: \<^verbatim>\<open>None\<close>, the string \<^verbatim>\<open>'passthrough'\<close>, or an object.\<close>

datatype step = StepNone | Passthrough | Est estimator

fun hasattr :: "step \<Rightarrow> attr \<Rightarrow> bool" where
  "hasattr (Est e) a = (a \<in> set (attrs e))"
| "hasattr StepNone a = False"
| "hasattr Passthrough a = False"

text \<open>\<^verbatim>\<open>t is None or t == 'passthrough'\<close>\<close>

fun is_skipped :: "step \<Rightarrow> bool" where
  "is_skipped StepNone = True"
| "is_skipped Passthrough = True"
| "is_skipped (Est e) = False"

text \<open>
  Calling method \<open>m\<close> of an object: an attribute error when the object has no such
  method, otherwise the method runs on the object's state, the state it leaves is stored
  and the call is added to the history.
\<close>

definition invoke :: "estimator \<Rightarrow> attr \<Rightarrow> pyval list \<Rightarrow> kwargs \<Rightarrow> (exn + pyval) \<times> estimator" where
  "invoke e m args kw =
     (if m \<in> set (attrs e)
      then (case impl e m args kw (st e) of
              (r, s') \<Rightarrow> (r, e\<lparr>st := s', calls := calls e @ [m]\<rparr>))
      else (Inl AttributeError, e))"

text \<open>
  Tuple unpacking \<^verbatim>\<open>a, b = v\<close>: \<open>v\<close> must be iterable (else a type error) and have
  exactly \<open>n\<close> items (else a value error).
\<close>

fun unpack :: "nat \<Rightarrow> pyval \<Rightarrow> exn + pyval list" where
  "unpack n (PyTuple vs) = (if length vs = n then Inr vs else Inl ValueError)"
| "unpack n (PyList vs) = (if length vs = n then Inr vs else Inl ValueError)"
| "unpack n (PyStr s) = (if length s = n then Inr (map (\<lambda>c. PyStr [c]) s) else Inl ValueError)"
| "unpack n PyNone = Inl TypeError"
| "unpack n PySelf = Inl TypeError"
| "unpack n (PyInt i) = Inl TypeError"

section \<open>The pipeline object and the host framework\<close>

text \<open>
  The pipeline instance: its list of (name, step) pairs, the caching location
  (\<^verbatim>\<open>memory\<close>), and the two bookkeeping attributes \<^verbatim>\<open>to_keep_ind\<close> and
  \<^verbatim>\<open>outliers\<close>, which do not exist (\<open>None\<close>) until a predict-style call sets them.
  Every entry of the list holds an object of its own: a method call on a step changes that
  entry and no other.
\<close>

record pipeline =
  steps :: "(string \<times> step) list"
  memory :: "string option"
  to_keep_ind :: "pyval option"
  outliers :: "pyval option"

text \<open>
  The functions of the host framework that \<^verbatim>\<open>pipeline.py\<close> calls and that are not
  part of the repository are parameters of the model:
  \<^item> \<open>validate_names\<close>: \<^verbatim>\<open>self._validate_names(names)\<close>, which raises or returns;
  \<^item> \<open>clone_state\<close>: \<^verbatim>\<open>clone(transformer)\<close> builds a new, unfitted object of the same
    class; the state it starts from is the host's business;
  \<^item> \<open>fit_transform_one\<close>: \<^verbatim>\<open>pipeline._fit_transform_one(transformer, X, y, None,
    **fit_params)\<close>, which returns the transformed features and the fitted transformer.
  The caching wrapper \<^verbatim>\<open>memory.cache\<close> is taken to be transparent, and the logging
  helpers \<^verbatim>\<open>_print_elapsed_time\<close> and \<^verbatim>\<open>_log_message\<close> have no effect on the data.
\<close>

record host =
  validate_names :: "string list \<Rightarrow> exn option"
  clone_state :: "pyval \<Rightarrow> pyval"
  fit_transform_one :: "estimator \<Rightarrow> pyval \<Rightarrow> pyval \<Rightarrow> kwargs \<Rightarrow> (exn + pyval) \<times> estimator"

definition clone :: "host \<Rightarrow> estimator \<Rightarrow> estimator" where
  "clone h e = e\<lparr>st := clone_state h (st e), calls := []\<rparr>"

text \<open>
  \<^verbatim>\<open>mem = memory.location\<close>, then \<^verbatim>\<open>clone(transformer) if mem else transformer\<close>:
  no location, or an empty one, is false.
\<close>

definition mem_set :: "pipeline \<Rightarrow> bool" where
  "mem_set p = (case memory p of None \<Rightarrow> False | Some l \<Rightarrow> l \<noteq> [])"

text \<open>
  Modelled from the spec: the property \<^verbatim>\<open>_final_estimator\<close> is inherited from the host
  framework's pipeline class. It is the last step, with \<^verbatim>\<open>None\<close> read as
  \<^verbatim>\<open>'passthrough'\<close> ("We allow last estimator to be None as an identity
  transformation"); \<^verbatim>\<open>self.steps[-1]\<close> raises an index error on an empty list.
\<close>

definition final_estimator :: "pipeline \<Rightarrow> exn + step" where
  "final_estimator p =
     (case steps p of
        [] \<Rightarrow> Inl IndexError
      | _ # _ \<Rightarrow> Inr (case snd (last (steps p)) of StepNone \<Rightarrow> Passthrough | s \<Rightarrow> s))"

text \<open>
  Modelled from the spec: the inherited generator \<^verbatim>\<open>super()._iter(with_final,
  filter_passthrough)\<close>, which the docstring of \<^verbatim>\<open>_iter\<close> describes: it yields
  index, name and step for the steps in order, without the last one unless
  \<open>with_final\<close>, and without \<^verbatim>\<open>None\<close> and \<^verbatim>\<open>'passthrough'\<close> steps when
  \<open>filter_passthrough\<close>.
\<close>

definition base_iter :: "(string \<times> step) list \<Rightarrow> bool \<Rightarrow> bool \<Rightarrow> (nat \<times> string \<times> step) list" where
  "base_iter ss with_final filter_passthrough =
     filter (\<lambda>(idx, name, trans). \<not> filter_passthrough \<or> \<not> is_skipped trans)
       (take (if with_final then length ss else length ss - 1) (enumerate 0 ss))"

text \<open>
  \<^verbatim>\<open>Pipeline._iter\<close>: with \<open>filter_resample\<close>, the steps that have a method
  \<^verbatim>\<open>fit_resample\<close> are filtered out as well.
\<close>

definition p_iter :: "pipeline \<Rightarrow> bool \<Rightarrow> bool \<Rightarrow> bool \<Rightarrow> (nat \<times> string \<times> step) list" where
  "p_iter p with_final filter_passthrough filter_resample =
     (let it = base_iter (steps p) with_final filter_passthrough
      in if filter_resample
         then filter (\<lambda>x. \<not> hasattr (snd (snd x)) FitResample) it
         else it)"

section \<open>Validation of the steps\<close>

text \<open>
  The body of the loop over the intermediate steps in \<^verbatim>\<open>_validate_steps\<close>
  (lines 168 to 185): \<open>None\<close> when the step is accepted.
\<close>

definition check_transformer :: "step \<Rightarrow> exn option" where
  "check_transformer t =
     (if is_skipped t then None
      else if \<not> (hasattr t Fit \<or> hasattr t FitTransform \<or> hasattr t FitResample)
              \<or> \<not> (hasattr t Transform \<or> hasattr t FitResample)
           then Some TypeError
      else if (case t of Est e \<Rightarrow> is_pipeline e | _ \<Rightarrow> False) then Some TypeError
      else None)"

fun check_transformers :: "step list \<Rightarrow> exn option" where
  "check_transformers [] = None"
| "check_transformers (t # ts) =
     (case check_transformer t of Some ex \<Rightarrow> Some ex | None \<Rightarrow> check_transformers ts)"

text \<open>
  \<^verbatim>\<open>Pipeline._validate_steps\<close>: \<open>None\<close> when validation passes.
  \<^verbatim>\<open>names, estimators = zip(*self.steps)\<close> raises a value error on an empty list of
  steps (nothing to unpack).
\<close>

definition p_validate_steps :: "host \<Rightarrow> pipeline \<Rightarrow> exn option" where
  "p_validate_steps h p =
     (case steps p of
        [] \<Rightarrow> Some ValueError
      | _ # _ \<Rightarrow>
          (case validate_names h (map fst (steps p)) of
             Some ex \<Rightarrow> Some ex
           | None \<Rightarrow>
               (case check_transformers (butlast (map snd (steps p))) of
                  Some ex \<Rightarrow> Some ex
                | None \<Rightarrow>
                    (let estimator = last (map snd (steps p))
                     in if \<not> is_skipped estimator \<and> \<not> hasattr estimator Fit
                        then Some TypeError else None))))"

section \<open>Fitting\<close>

text \<open>
  \<^verbatim>\<open>'__' in pname\<close> and \<^verbatim>\<open>pname.split('__', 1)\<close> in one function: \<open>None\<close>
  when the name has no separator, otherwise the text before and after its first occurrence.
\<close>

fun split_dunder :: "string \<Rightarrow> (string \<times> string) option" where
  "split_dunder (a # b # cs) =
     (if a = CHR ''_'' \<and> b = CHR ''_'' then Some ([], cs)
      else map_option (\<lambda>(step, param). (a # step, param)) (split_dunder (b # cs)))"
| "split_dunder cs = None"

text \<open>
  \<^verbatim>\<open>fit_params_steps = {name: {} for name, step in self.steps if step is not None}\<close>
\<close>

definition init_params :: "(string \<times> step) list \<Rightarrow> (string \<rightharpoonup> kwargs)" where
  "init_params ss =
     map_of (map (\<lambda>(name, step). (name, []))
       (filter (\<lambda>(name, step). case step of StepNone \<Rightarrow> False | _ \<Rightarrow> True) ss))"

text \<open>
  The loop over \<^verbatim>\<open>fit_params.items()\<close> (lines 228 to 237): a name without separator
  raises a value error; \<^verbatim>\<open>fit_params_steps[step][param] = pval\<close> raises a key error
  when \<open>step\<close> is not a key of the dictionary.
\<close>

fun route_params :: "kwargs \<Rightarrow> (string \<rightharpoonup> kwargs) \<Rightarrow> exn + (string \<rightharpoonup> kwargs)" where
  "route_params [] d = Inr d"
| "route_params ((pname, pval) # rest) d =
     (case split_dunder pname of
        None \<Rightarrow> Inl ValueError
      | Some (step, param) \<Rightarrow>
          (case d step of
             None \<Rightarrow> Inl KeyError
           | Some kw \<Rightarrow> route_params rest (d(step \<mapsto> AList.update param pval kw))))"

text \<open>\<^verbatim>\<open>_fit_resample_one\<close> (lines 535 to 544).\<close>

definition p_fit_resample_one ::
  "estimator \<Rightarrow> pyval \<Rightarrow> pyval \<Rightarrow> kwargs \<Rightarrow> (exn + pyval \<times> pyval) \<times> estimator" where
  "p_fit_resample_one sampler X y fit_params =
     (case invoke sampler FitResample [X, y] fit_params of
        (Inl ex, sampler') \<Rightarrow> (Inl ex, sampler')
      | (Inr r, sampler') \<Rightarrow>
          (case unpack 2 r of
             Inl ex \<Rightarrow> (Inl ex, sampler')
           | Inr vs \<Rightarrow>
               (case vs of
                  [X_res, y_res] \<Rightarrow> (Inr (X_res, y_res), sampler')
                | _ \<Rightarrow> (Inl ValueError, sampler'))))"

text \<open>\<^verbatim>\<open>self.steps[step_idx] = (name, fitted_transformer)\<close>\<close>

definition set_step :: "pipeline \<Rightarrow> nat \<Rightarrow> string \<Rightarrow> estimator \<Rightarrow> pipeline" where
  "set_step p idx name e = p\<lparr>steps := (steps p)[idx := (name, Est e)]\<rparr>"

text \<open>
  One iteration of the loop of \<^verbatim>\<open>_fit\<close> (lines 243 to 276). The loop carries the
  features \<open>X\<close>, the labels \<open>y\<close> and the local variable \<^verbatim>\<open>fitted_transformer\<close>
  (\<open>ft\<close>, unbound before its first assignment). A method runs on the clone when a
  caching location is set, and on the step's own object otherwise; in the second case the
  object of the pipeline is the one that has changed when the method raises.
\<close>

definition fit_step ::
  "host \<Rightarrow> (string \<rightharpoonup> kwargs) \<Rightarrow> nat \<times> string \<times> step \<Rightarrow> pyval \<Rightarrow> pyval \<Rightarrow> estimator option
     \<Rightarrow> pipeline \<Rightarrow> (exn + pyval \<times> pyval \<times> estimator option) \<times> pipeline" where
  "fit_step h fit_params_steps item X y ft p =
     (case item of (step_idx, name, transformer) \<Rightarrow>
        (case transformer of
           StepNone \<Rightarrow> (Inr (X, y, ft), p)
         | Passthrough \<Rightarrow> (Inr (X, y, ft), p)
         | Est e \<Rightarrow>
             (let cloned_transformer = (if mem_set p then clone h e else e)
              in if (Transform \<in> set (attrs cloned_transformer)
                     \<or> FitTransform \<in> set (attrs cloned_transformer))
                    \<and> FitResample \<notin> set (attrs cloned_transformer)
                 then
                   (case fit_params_steps name of
                      None \<Rightarrow> (Inl KeyError, p)
                    | Some kw \<Rightarrow>
                        (case fit_transform_one h cloned_transformer X y kw of
                           (Inl ex, t') \<Rightarrow>
                             (Inl ex, if mem_set p then p else set_step p step_idx name t')
                         | (Inr X', fitted_transformer) \<Rightarrow>
                             (Inr (X', y, Some fitted_transformer),
                              set_step p step_idx name fitted_transformer)))
                 else if FitResample \<in> set (attrs cloned_transformer)
                 then
                   (case fit_params_steps name of
                      None \<Rightarrow> (Inl KeyError, p)
                    | Some kw \<Rightarrow>
                        (case p_fit_resample_one cloned_transformer X y kw of
                           (Inl ex, t') \<Rightarrow>
                             (Inl ex, if mem_set p then p else set_step p step_idx name t')
                         | (Inr (X', y'), fitted_transformer) \<Rightarrow>
                             (Inr (X', y', Some fitted_transformer),
                              set_step p step_idx name fitted_transformer)))
                 else
                   (case ft of
                      None \<Rightarrow> (Inl UnboundLocalError, p)
                    | Some fitted_transformer \<Rightarrow>
                        (Inr (X, y, ft), set_step p step_idx name fitted_transformer)))))"

text \<open>
  The loop itself. The generator yields the steps of \<^verbatim>\<open>self.steps\<close> one by one while
  the body rewrites only the entry it has just been given, so the loop sees the steps as
  they were when it started.
\<close>

fun fit_loop ::
  "host \<Rightarrow> (string \<rightharpoonup> kwargs) \<Rightarrow> (nat \<times> string \<times> step) list \<Rightarrow> pyval \<Rightarrow> pyval \<Rightarrow> estimator option
     \<Rightarrow> pipeline \<Rightarrow> (exn + pyval \<times> pyval) \<times> pipeline" where
  "fit_loop h fps [] X y ft p = (Inr (X, y), p)"
| "fit_loop h fps (item # rest) X y ft p =
     (case fit_step h fps item X y ft p of
        (Inl ex, p') \<Rightarrow> (Inl ex, p')
      | (Inr (X', y', ft'), p') \<Rightarrow> fit_loop h fps rest X' y' ft' p')"

text \<open>\<^verbatim>\<open>Pipeline._fit\<close> (lines 216 to 279).\<close>

definition p_fit ::
  "host \<Rightarrow> pyval \<Rightarrow> pyval \<Rightarrow> kwargs \<Rightarrow> pipeline \<Rightarrow> (exn + pyval \<times> pyval \<times> kwargs) \<times> pipeline" where
  "p_fit h X y fit_params p =
     (case p_validate_steps h p of
        Some ex \<Rightarrow> (Inl ex, p)
      | None \<Rightarrow>
          (case route_params fit_params (init_params (steps p)) of
             Inl ex \<Rightarrow> (Inl ex, p)
           | Inr fit_params_steps \<Rightarrow>
               (case fit_loop h fit_params_steps (p_iter p False False False) X y None p of
                  (Inl ex, p') \<Rightarrow> (Inl ex, p')
                | (Inr (X', y'), p') \<Rightarrow>
                    (case final_estimator p' of
                       Inl ex \<Rightarrow> (Inl ex, p')
                     | Inr Passthrough \<Rightarrow> (Inr (X', y', []), p')
                     | Inr _ \<Rightarrow>
                         (case fit_params_steps (fst (last (steps p'))) of
                            None \<Rightarrow> (Inl KeyError, p')
                          | Some kw \<Rightarrow> (Inr (X', y', kw), p'))))))"

text \<open>
  A method call on the last step, \<^verbatim>\<open>self.steps[-1][-1].m(...)\<close>; the object it
  leaves is the last step afterwards.
\<close>

definition call_final :: "pipeline \<Rightarrow> attr \<Rightarrow> pyval list \<Rightarrow> kwargs \<Rightarrow> (exn + pyval) \<times> pipeline" where
  "call_final p m args kw =
     (case steps p of
        [] \<Rightarrow> (Inl IndexError, p)
      | _ # _ \<Rightarrow>
          (case snd (last (steps p)) of
             Est e \<Rightarrow>
               (case invoke e m args kw of
                  (r, e') \<Rightarrow> (r, set_step p (length (steps p) - 1) (fst (last (steps p))) e'))
           | _ \<Rightarrow> (Inl AttributeError, p)))"

text \<open>
  \<^verbatim>\<open>Pipeline.fit\<close> (lines 308 to 313). It returns the pipeline itself, which is the
  state the model returns.
\<close>

definition fit :: "host \<Rightarrow> pyval \<Rightarrow> pyval \<Rightarrow> kwargs \<Rightarrow> pipeline \<Rightarrow> (exn + unit) \<times> pipeline" where
  "fit h X y fit_params p =
     (case p_fit h X y fit_params p of
        (Inl ex, p') \<Rightarrow> (Inl ex, p')
      | (Inr (Xt, yt, fp), p') \<Rightarrow>
          (case final_estimator p' of
             Inl ex \<Rightarrow> (Inl ex, p')
           | Inr Passthrough \<Rightarrow> (Inr (), p')
           | Inr _ \<Rightarrow>
               (case call_final p' Fit [Xt, yt] fp of
                  (Inl ex, p'') \<Rightarrow> (Inl ex, p'')
                | (Inr _, p'') \<Rightarrow> (Inr (), p''))))"

text \<open>
  \<^verbatim>\<open>Pipeline.fit_transform\<close> (lines 342 to 351). \<^verbatim>\<open>last_step\<close> is read before
  \<^verbatim>\<open>_fit\<close> runs; it is the object that is the last step afterwards, since \<^verbatim>\<open>_fit\<close>
  rewrites the entries of the intermediate steps only. In the last branch the method
  \<^verbatim>\<open>transform\<close> is called on what \<^verbatim>\<open>fit\<close> returns: on the final step when
  \<^verbatim>\<open>fit\<close> returns the object itself, as the estimator protocol asks; any other value
  (\<^verbatim>\<open>None\<close>, a number, a list) has no attribute \<^verbatim>\<open>transform\<close>.
\<close>

definition fit_transform :: "host \<Rightarrow> pyval \<Rightarrow> pyval \<Rightarrow> kwargs \<Rightarrow> pipeline \<Rightarrow> (exn + pyval) \<times> pipeline" where
  "fit_transform h X y fit_params p =
     (case final_estimator p of
        Inl ex \<Rightarrow> (Inl ex, p)
      | Inr last_step \<Rightarrow>
          (case p_fit h X y fit_params p of
             (Inl ex, p') \<Rightarrow> (Inl ex, p')
           | (Inr (Xt, yt, fp), p') \<Rightarrow>
               (case last_step of
                  Passthrough \<Rightarrow> (Inr Xt, p')
                | _ \<Rightarrow>
                    if hasattr last_step FitTransform
                    then call_final p' FitTransform [Xt, yt] fp
                    else (case call_final p' Fit [Xt, yt] fp of
                            (Inl ex, p'') \<Rightarrow> (Inl ex, p'')
                          | (Inr PySelf, p'') \<Rightarrow> call_final p'' Transform [Xt] []
                          | (Inr _, p'') \<Rightarrow> (Inl AttributeError, p'')))))"

text \<open>
  \<^verbatim>\<open>Pipeline.fit_resample\<close> (lines 383 to 390). When neither branch of the
  \<^verbatim>\<open>if\<close> is taken the method ends without a \<^verbatim>\<open>return\<close>, that is, it returns
  \<^verbatim>\<open>None\<close>.
\<close>

definition fit_resample :: "host \<Rightarrow> pyval \<Rightarrow> pyval \<Rightarrow> kwargs \<Rightarrow> pipeline \<Rightarrow> (exn + pyval) \<times> pipeline" where
  "fit_resample h X y fit_params p =
     (case final_estimator p of
        Inl ex \<Rightarrow> (Inl ex, p)
      | Inr last_step \<Rightarrow>
          (case p_fit h X y fit_params p of
             (Inl ex, p') \<Rightarrow> (Inl ex, p')
           | (Inr (Xt, yt, fp), p') \<Rightarrow>
               (case last_step of
                  Passthrough \<Rightarrow> (Inr Xt, p')
                | _ \<Rightarrow>
                    if hasattr last_step FitResample
                    then call_final p' FitResample [Xt, yt] fp
                    else (Inr PyNone, p'))))"

text \<open>
  Modelled from the spec: the decorator \<^verbatim>\<open>if_delegate_has_method(delegate=
  '_final_estimator')\<close> of the host framework ("a method is only exposed if the final
  step supports it"): reading the decorated attribute of the pipeline raises an attribute
  error unless \<^verbatim>\<open>_final_estimator\<close> has an attribute of that name.
\<close>

definition delegate_has :: "pipeline \<Rightarrow> attr \<Rightarrow> exn option" where
  "delegate_has p m =
     (case final_estimator p of
        Inl ex \<Rightarrow> Some ex
      | Inr s \<Rightarrow> if hasattr s m then None else Some AttributeError)"

text \<open>\<^verbatim>\<open>Pipeline.fit_predict\<close> (lines 392 to 424).\<close>

definition fit_predict :: "host \<Rightarrow> pyval \<Rightarrow> pyval \<Rightarrow> kwargs \<Rightarrow> pipeline \<Rightarrow> (exn + pyval) \<times> pipeline" where
  "fit_predict h X y fit_params p =
     (case delegate_has p FitPredict of
        Some ex \<Rightarrow> (Inl ex, p)
      | None \<Rightarrow>
          (case p_fit h X y fit_params p of
             (Inl ex, p') \<Rightarrow> (Inl ex, p')
           | (Inr (Xt, yt, fp), p') \<Rightarrow> call_final p' FitPredict [Xt, yt] fp))"

section \<open>Prediction and transformation\<close>

text \<open>
  One iteration of the loop of \<^verbatim>\<open>predict\<close> (lines 452 to 458); the loop of
  \<^verbatim>\<open>predict_proba\<close> (lines 487 to 493) has the same text. A step that has
  \<^verbatim>\<open>fit_resample\<close> must return three values from \<^verbatim>\<open>transform\<close>; the pipeline
  stores the second and the third when the second is not \<^verbatim>\<open>None\<close>. As in
  \<^verbatim>\<open>_fit\<close>, an iteration changes the entry of its own step only, so the loops below run
  over the steps as the generator finds them at the start.
\<close>

definition predict_step :: "nat \<times> string \<times> step \<Rightarrow> pyval \<Rightarrow> pipeline \<Rightarrow> (exn + pyval) \<times> pipeline" where
  "predict_step item Xt p =
     (case item of (idx, name, transform) \<Rightarrow>
        (case transform of
           Est e \<Rightarrow>
             (if hasattr transform FitResample
              then
                (case invoke e Transform [Xt] [] of
                   (Inl ex, e') \<Rightarrow> (Inl ex, set_step p idx name e')
                 | (Inr r, e') \<Rightarrow>
                     (case unpack 3 r of
                        Inl ex \<Rightarrow> (Inl ex, set_step p idx name e')
                      | Inr vs \<Rightarrow>
                          (case vs of
                             [Xt', keep, outl] \<Rightarrow>
                               (Inr Xt',
                                if keep \<noteq> PyNone
                                then (set_step p idx name e')
                                       \<lparr>to_keep_ind := Some keep, outliers := Some outl\<rparr>
                                else set_step p idx name e')
                           | _ \<Rightarrow> (Inl ValueError, set_step p idx name e'))))
              else
                (case invoke e Transform [Xt] [] of
                   (r, e') \<Rightarrow> (r, set_step p idx name e')))
         | _ \<Rightarrow> (Inl AttributeError, p)))"

fun predict_loop :: "(nat \<times> string \<times> step) list \<Rightarrow> pyval \<Rightarrow> pipeline \<Rightarrow> (exn + pyval) \<times> pipeline" where
  "predict_loop [] Xt p = (Inr Xt, p)"
| "predict_loop (item # rest) Xt p =
     (case predict_step item Xt p of
        (Inl ex, p') \<Rightarrow> (Inl ex, p')
      | (Inr Xt', p') \<Rightarrow> predict_loop rest Xt' p')"

text \<open>\<^verbatim>\<open>Pipeline.predict\<close> (lines 426 to 459).\<close>

definition predict :: "pyval \<Rightarrow> kwargs \<Rightarrow> pipeline \<Rightarrow> (exn + pyval) \<times> pipeline" where
  "predict X predict_params p =
     (case delegate_has p Predict of
        Some ex \<Rightarrow> (Inl ex, p)
      | None \<Rightarrow>
          (case predict_loop (p_iter p False True False) X p of
             (Inl ex, p') \<Rightarrow> (Inl ex, p')
           | (Inr Xt, p') \<Rightarrow> call_final p' Predict [Xt] predict_params))"

text \<open>\<^verbatim>\<open>Pipeline.predict_proba\<close> (lines 461 to 494).\<close>

definition predict_proba :: "pyval \<Rightarrow> kwargs \<Rightarrow> pipeline \<Rightarrow> (exn + pyval) \<times> pipeline" where
  "predict_proba X predict_proba_params p =
     (case delegate_has p PredictProba of
        Some ex \<Rightarrow> (Inl ex, p)
      | None \<Rightarrow>
          (case predict_loop (p_iter p False True False) X p of
             (Inl ex, p') \<Rightarrow> (Inl ex, p')
           | (Inr Xt, p') \<Rightarrow> call_final p' PredictProba [Xt] predict_proba_params))"

text \<open>
  \<^verbatim>\<open>Pipeline._transform\<close> (lines 519 to 524): every step the generator yields gets
  features and labels, and must return two values.
\<close>

definition transform_step ::
  "nat \<times> string \<times> step \<Rightarrow> pyval \<Rightarrow> pyval \<Rightarrow> pipeline \<Rightarrow> (exn + pyval \<times> pyval) \<times> pipeline" where
  "transform_step item Xt y p =
     (case item of (idx, name, transform) \<Rightarrow>
        (case transform of
           Est e \<Rightarrow>
             (case invoke e Transform [Xt, y] [] of
                (Inl ex, e') \<Rightarrow> (Inl ex, set_step p idx name e')
              | (Inr r, e') \<Rightarrow>
                  (case unpack 2 r of
                     Inl ex \<Rightarrow> (Inl ex, set_step p idx name e')
                   | Inr vs \<Rightarrow>
                       (case vs of
                          [Xt', y'] \<Rightarrow> (Inr (Xt', y'), set_step p idx name e')
                        | _ \<Rightarrow> (Inl ValueError, set_step p idx name e'))))
         | _ \<Rightarrow> (Inl AttributeError, p)))"

fun transform_loop ::
  "(nat \<times> string \<times> step) list \<Rightarrow> pyval \<Rightarrow> pyval \<Rightarrow> pipeline \<Rightarrow> (exn + pyval \<times> pyval) \<times> pipeline" where
  "transform_loop [] Xt y p = (Inr (Xt, y), p)"
| "transform_loop (item # rest) Xt y p =
     (case transform_step item Xt y p of
        (Inl ex, p') \<Rightarrow> (Inl ex, p')
      | (Inr (Xt', y'), p') \<Rightarrow> transform_loop rest Xt' y' p')"

definition p_transform :: "pyval \<Rightarrow> pyval \<Rightarrow> pipeline \<Rightarrow> (exn + pyval) \<times> pipeline" where
  "p_transform X y p =
     (case transform_loop (p_iter p True True True) X y p of
        (Inl ex, p') \<Rightarrow> (Inl ex, p')
      | (Inr (Xt, y'), p') \<Rightarrow> (Inr (PyTuple [Xt, y']), p'))"

text \<open>
  The property \<^verbatim>\<open>Pipeline.transform\<close> (lines 496 to 517): reading it raises an
  attribute error when the final estimator is not \<^verbatim>\<open>'passthrough'\<close> and has no
  \<^verbatim>\<open>transform\<close>; otherwise it is the method \<^verbatim>\<open>_transform\<close>.
\<close>

definition transform_property :: "pipeline \<Rightarrow> exn option" where
  "transform_property p =
     (case final_estimator p of
        Inl ex \<Rightarrow> Some ex
      | Inr Passthrough \<Rightarrow> None
      | Inr s \<Rightarrow> if hasattr s Transform then None else Some AttributeError)"

definition transform :: "pyval \<Rightarrow> pyval \<Rightarrow> pipeline \<Rightarrow> (exn + pyval) \<times> pipeline" where
  "transform X y p =
     (case transform_property p of
        Some ex \<Rightarrow> (Inl ex, p)
      | None \<Rightarrow> p_transform X y p)"

text \<open>
  Reading the attribute of the pipeline that is named like a method of the public
  surface: \<^verbatim>\<open>fit\<close>, \<^verbatim>\<open>fit_transform\<close> and \<^verbatim>\<open>fit_resample\<close> are plain methods
  of the class, \<^verbatim>\<open>fit_predict\<close>, \<^verbatim>\<open>predict\<close> and \<^verbatim>\<open>predict_proba\<close> are decorated
  with \<^verbatim>\<open>if_delegate_has_method\<close>, and \<^verbatim>\<open>transform\<close> is the property above. The
  result is the exception the access raises, if any.
\<close>

fun getattr_pipeline :: "pipeline \<Rightarrow> attr \<Rightarrow> exn option" where
  "getattr_pipeline p Fit = None"
| "getattr_pipeline p FitTransform = None"
| "getattr_pipeline p FitResample = None"
| "getattr_pipeline p FitPredict = delegate_has p FitPredict"
| "getattr_pipeline p Predict = delegate_has p Predict"
| "getattr_pipeline p PredictProba = delegate_has p PredictProba"
| "getattr_pipeline p Transform = transform_property p"

text \<open>A method is exposed when reading it raises no attribute error.\<close>

definition exposed :: "pipeline \<Rightarrow> attr \<Rightarrow> bool" where
  "exposed p m = (getattr_pipeline p m \<noteq> Some AttributeError)"

section \<open>The baseline pipeline\<close>

text \<open>
  The baseline (non-resampling) pipeline of the host framework, as the specification
  describes it: validation asks every intermediate step for \<^verbatim>\<open>fit\<close> or
  \<^verbatim>\<open>fit_transform\<close>, and for \<^verbatim>\<open>transform\<close>; fitting threads the features through
  each step's \<^verbatim>\<open>fit_transform\<close> in order, leaves the labels as they are and fits the
  final estimator on the transformed features; prediction and transformation pass the
  features alone through each step's \<^verbatim>\<open>transform\<close>. Enabling caching triggers a clone of the transformers
  before fitting: the baseline fits a clone whenever a caching location is set, whatever the
  location is. These definitions are the specification side of the comparison; they are
  not taken from \<^verbatim>\<open>src/mldsutils/pipeline.py\<close>.
\<close>

definition caching_enabled :: "pipeline \<Rightarrow> bool" where
  "caching_enabled p = (case memory p of None \<Rightarrow> False | Some l \<Rightarrow> True)"

definition baseline_check_transformer :: "step \<Rightarrow> exn option" where
  "baseline_check_transformer t =
     (if is_skipped t then None
      else if \<not> (hasattr t Fit \<or> hasattr t FitTransform) \<or> \<not> hasattr t Transform
           then Some TypeError
      else None)"

fun baseline_check_transformers :: "step list \<Rightarrow> exn option" where
  "baseline_check_transformers [] = None"
| "baseline_check_transformers (t # ts) =
     (case baseline_check_transformer t of
        Some ex \<Rightarrow> Some ex
      | None \<Rightarrow> baseline_check_transformers ts)"

definition baseline_validate_steps :: "host \<Rightarrow> pipeline \<Rightarrow> exn option" where
  "baseline_validate_steps h p =
     (case steps p of
        [] \<Rightarrow> Some ValueError
      | _ # _ \<Rightarrow>
          (case validate_names h (map fst (steps p)) of
             Some ex \<Rightarrow> Some ex
           | None \<Rightarrow>
               (case baseline_check_transformers (butlast (map snd (steps p))) of
                  Some ex \<Rightarrow> Some ex
                | None \<Rightarrow>
                    (let estimator = last (map snd (steps p))
                     in if \<not> is_skipped estimator \<and> \<not> hasattr estimator Fit
                        then Some TypeError else None))))"

definition baseline_fit_step ::
  "host \<Rightarrow> (string \<rightharpoonup> kwargs) \<Rightarrow> nat \<times> string \<times> step \<Rightarrow> pyval \<Rightarrow> pyval \<Rightarrow> pipeline
     \<Rightarrow> (exn + pyval) \<times> pipeline" where
  "baseline_fit_step h fit_params_steps item X y p =
     (case item of (step_idx, name, transformer) \<Rightarrow>
        (case transformer of
           StepNone \<Rightarrow> (Inr X, p)
         | Passthrough \<Rightarrow> (Inr X, p)
         | Est e \<Rightarrow>
             (case fit_params_steps name of
                None \<Rightarrow> (Inl KeyError, p)
              | Some kw \<Rightarrow>
                  (case fit_transform_one h (if caching_enabled p then clone h e else e) X y kw of
                     (Inl ex, t') \<Rightarrow>
                       (Inl ex, if caching_enabled p then p else set_step p step_idx name t')
                   | (Inr X', fitted_transformer) \<Rightarrow>
                       (Inr X', set_step p step_idx name fitted_transformer)))))"

fun baseline_fit_loop ::
  "host \<Rightarrow> (string \<rightharpoonup> kwargs) \<Rightarrow> (nat \<times> string \<times> step) list \<Rightarrow> pyval \<Rightarrow> pyval \<Rightarrow> pipeline
     \<Rightarrow> (exn + pyval) \<times> pipeline" where
  "baseline_fit_loop h fps [] X y p = (Inr X, p)"
| "baseline_fit_loop h fps (item # rest) X y p =
     (case baseline_fit_step h fps item X y p of
        (Inl ex, p') \<Rightarrow> (Inl ex, p')
      | (Inr X', p') \<Rightarrow> baseline_fit_loop h fps rest X' y p')"

definition baseline_p_fit ::
  "host \<Rightarrow> pyval \<Rightarrow> pyval \<Rightarrow> kwargs \<Rightarrow> pipeline \<Rightarrow> (exn + pyval \<times> kwargs) \<times> pipeline" where
  "baseline_p_fit h X y fit_params p =
     (case baseline_validate_steps h p of
        Some ex \<Rightarrow> (Inl ex, p)
      | None \<Rightarrow>
          (case route_params fit_params (init_params (steps p)) of
             Inl ex \<Rightarrow> (Inl ex, p)
           | Inr fit_params_steps \<Rightarrow>
               (case baseline_fit_loop h fit_params_steps (base_iter (steps p) False False) X y p of
                  (Inl ex, p') \<Rightarrow> (Inl ex, p')
                | (Inr X', p') \<Rightarrow>
                    (case final_estimator p' of
                       Inl ex \<Rightarrow> (Inl ex, p')
                     | Inr Passthrough \<Rightarrow> (Inr (X', []), p')
                     | Inr _ \<Rightarrow>
                         (case fit_params_steps (fst (last (steps p'))) of
                            None \<Rightarrow> (Inl KeyError, p')
                          | Some kw \<Rightarrow> (Inr (X', kw), p'))))))"

definition baseline_fit :: "host \<Rightarrow> pyval \<Rightarrow> pyval \<Rightarrow> kwargs \<Rightarrow> pipeline \<Rightarrow> (exn + unit) \<times> pipeline" where
  "baseline_fit h X y fit_params p =
     (case baseline_p_fit h X y fit_params p of
        (Inl ex, p') \<Rightarrow> (Inl ex, p')
      | (Inr (Xt, fp), p') \<Rightarrow>
          (case final_estimator p' of
             Inl ex \<Rightarrow> (Inl ex, p')
           | Inr Passthrough \<Rightarrow> (Inr (), p')
           | Inr _ \<Rightarrow>
               (case call_final p' Fit [Xt, y] fp of
                  (Inl ex, p'') \<Rightarrow> (Inl ex, p'')
                | (Inr _, p'') \<Rightarrow> (Inr (), p''))))"

definition baseline_apply_step :: "nat \<times> string \<times> step \<Rightarrow> pyval \<Rightarrow> pipeline \<Rightarrow> (exn + pyval) \<times> pipeline" where
  "baseline_apply_step item Xt p =
     (case item of (idx, name, tr) \<Rightarrow>
        (case tr of
           Est e \<Rightarrow>
             (case invoke e Transform [Xt] [] of
                (r, e') \<Rightarrow> (r, set_step p idx name e'))
         | _ \<Rightarrow> (Inl AttributeError, p)))"

fun baseline_apply_loop :: "(nat \<times> string \<times> step) list \<Rightarrow> pyval \<Rightarrow> pipeline \<Rightarrow> (exn + pyval) \<times> pipeline" where
  "baseline_apply_loop [] Xt p = (Inr Xt, p)"
| "baseline_apply_loop (item # rest) Xt p =
     (case baseline_apply_step item Xt p of
        (Inl ex, p') \<Rightarrow> (Inl ex, p')
      | (Inr Xt', p') \<Rightarrow> baseline_apply_loop rest Xt' p')"

definition baseline_predict :: "pyval \<Rightarrow> kwargs \<Rightarrow> pipeline \<Rightarrow> (exn + pyval) \<times> pipeline" where
  "baseline_predict X predict_params p =
     (case delegate_has p Predict of
        Some ex \<Rightarrow> (Inl ex, p)
      | None \<Rightarrow>
          (case baseline_apply_loop (base_iter (steps p) False True) X p of
             (Inl ex, p') \<Rightarrow> (Inl ex, p')
           | (Inr Xt, p') \<Rightarrow> call_final p' Predict [Xt] predict_params))"

definition baseline_transform :: "pyval \<Rightarrow> pipeline \<Rightarrow> (exn + pyval) \<times> pipeline" where
  "baseline_transform X p =
     (case transform_property p of
        Some ex \<Rightarrow> (Inl ex, p)
      | None \<Rightarrow> baseline_apply_loop (base_iter (steps p) True True) X p)"

text \<open>
  The bad step shapes as the specification words them: an intermediate step that is not
  skipped and lacks both the fit-like and the transform-like capability, or is itself a
  pipeline; a final step that is not skipped and lacks \<^verbatim>\<open>fit\<close>.
\<close>

definition spec_bad_intermediate :: "step \<Rightarrow> bool" where
  "spec_bad_intermediate t =
     (\<not> is_skipped t
      \<and> ((\<not> (hasattr t Fit \<or> hasattr t FitTransform \<or> hasattr t FitResample)
           \<and> \<not> (hasattr t Transform \<or> hasattr t FitResample))
          \<or> (case t of Est e \<Rightarrow> is_pipeline e | _ \<Rightarrow> False)))"

definition spec_bad_shape :: "pipeline \<Rightarrow> bool" where
  "spec_bad_shape p =
     (list_ex spec_bad_intermediate (butlast (map snd (steps p)))
      \<or> (\<not> is_skipped (last (map snd (steps p))) \<and> \<not> hasattr (last (map snd (steps p))) Fit))"

text \<open>
  The steps of a pipeline with \<^verbatim>\<open>'passthrough'\<close> in the place of every step that has
  \<^verbatim>\<open>fit_resample\<close>; used to say that such steps add nothing to a result.
\<close>

definition without_resamplers :: "(string \<times> step) list \<Rightarrow> (string \<times> step) list" where
  "without_resamplers ss =
     map (\<lambda>(name, t). (name, if hasattr t FitResample then Passthrough else t)) ss"

text \<open>
  The history of the methods called on the step at position \<open>i\<close> (empty for a step
  that is no object).
\<close>

definition history :: "pipeline \<Rightarrow> nat \<Rightarrow> attr list" where
  "history p i = (case snd (steps p ! i) of Est e \<Rightarrow> calls e | _ \<Rightarrow> [])"

section \<open>The loops as the specification describes them\<close>

text \<open>
  The three loops of the pipeline, written as the specification words them: as functions
  of the list of (name, step) entries alone, without indices, generators or a pipeline
  object. Each returns what the loop computes and the entries as the loop leaves them.
  They are the specification side of the statements about \<^verbatim>\<open>_fit\<close>, \<^verbatim>\<open>predict\<close>
  and \<^verbatim>\<open>_transform\<close> below; the code's loops are \<open>fit_loop\<close>, \<open>predict_loop\<close> and
  \<open>transform_loop\<close> above.

  Fitting: the entries are visited in list order. An entry that is \<^verbatim>\<open>None\<close> or
  \<^verbatim>\<open>'passthrough'\<close> is left alone. A resample-capable step (one with
  \<^verbatim>\<open>fit_resample\<close>) is fitted with its parameters and replaces features and labels; any
  other step is fitted as a transformer and replaces the features only. The fitted object
  takes the place of the step. \<open>c\<close> says whether the steps are cloned before fitting.
\<close>

fun spec_fit_steps ::
  "host \<Rightarrow> bool \<Rightarrow> (string \<rightharpoonup> kwargs) \<Rightarrow> (string \<times> step) list \<Rightarrow> pyval \<Rightarrow> pyval
     \<Rightarrow> (exn + pyval \<times> pyval) \<times> (string \<times> step) list" where
  "spec_fit_steps h c fps [] X y = (Inr (X, y), [])"
| "spec_fit_steps h c fps ((name, t) # rest) X y =
     (case t of
        Est e \<Rightarrow>
          (case fps name of
             None \<Rightarrow> (Inl KeyError, (name, t) # rest)
           | Some kw \<Rightarrow>
               if FitResample \<in> set (attrs e)
               then (case p_fit_resample_one (if c then clone h e else e) X y kw of
                       (Inl ex, e') \<Rightarrow> (Inl ex, (name, Est (if c then e else e')) # rest)
                     | (Inr (X', y'), fitted) \<Rightarrow>
                         (case spec_fit_steps h c fps rest X' y' of
                            (r, rest') \<Rightarrow> (r, (name, Est fitted) # rest')))
               else (case fit_transform_one h (if c then clone h e else e) X y kw of
                       (Inl ex, e') \<Rightarrow> (Inl ex, (name, Est (if c then e else e')) # rest)
                     | (Inr X', fitted) \<Rightarrow>
                         (case spec_fit_steps h c fps rest X' y of
                            (r, rest') \<Rightarrow> (r, (name, Est fitted) # rest'))))
      | _ \<Rightarrow>
          (case spec_fit_steps h c fps rest X y of
             (r, rest') \<Rightarrow> (r, (name, t) # rest')))"

text \<open>
  Prediction: every step that is an object has \<^verbatim>\<open>transform\<close> called on the features,
  in list order. A resample-capable step returns the filtered features, the kept-row indices
  and the outlier indices; the last two are recorded (the pair \<open>rec\<close> stands for
  \<^verbatim>\<open>to_keep_ind\<close> and \<^verbatim>\<open>outliers\<close>) unless the kept-row indices are \<^verbatim>\<open>None\<close>.
  Any other step returns the new features.
\<close>

fun spec_predict_steps ::
  "(string \<times> step) list \<Rightarrow> pyval \<Rightarrow> pyval option \<times> pyval option
     \<Rightarrow> (exn + pyval) \<times> (string \<times> step) list \<times> (pyval option \<times> pyval option)" where
  "spec_predict_steps [] Xt rec = (Inr Xt, [], rec)"
| "spec_predict_steps ((name, t) # rest) Xt rec =
     (case t of
        Est e \<Rightarrow>
          (case invoke e Transform [Xt] [] of
             (Inl ex, e') \<Rightarrow> (Inl ex, (name, Est e') # rest, rec)
           | (Inr v, e') \<Rightarrow>
               if FitResample \<in> set (attrs e)
               then (case unpack 3 v of
                       Inl ex \<Rightarrow> (Inl ex, (name, Est e') # rest, rec)
                     | Inr vs \<Rightarrow>
                         (case vs of
                            [Xt', keep, outl] \<Rightarrow>
                              (case spec_predict_steps rest Xt'
                                      (if keep \<noteq> PyNone then (Some keep, Some outl) else rec) of
                                 (r, rest', rec') \<Rightarrow> (r, (name, Est e') # rest', rec'))
                          | _ \<Rightarrow> (Inl ValueError, (name, Est e') # rest, rec)))
               else (case spec_predict_steps rest v rec of
                       (r, rest', rec') \<Rightarrow> (r, (name, Est e') # rest', rec')))
      | _ \<Rightarrow>
          (case spec_predict_steps rest Xt rec of
             (r, rest', rec') \<Rightarrow> (r, (name, t) # rest', rec')))"

text \<open>
  Transformation: the steps that expose \<^verbatim>\<open>fit_resample\<close> are passed over, like the
  steps that are no objects; every other step has \<^verbatim>\<open>transform\<close> called with the
  features and the labels and returns both.
\<close>

fun spec_transform_steps ::
  "(string \<times> step) list \<Rightarrow> pyval \<Rightarrow> pyval \<Rightarrow> (exn + pyval \<times> pyval) \<times> (string \<times> step) list" where
  "spec_transform_steps [] Xt y = (Inr (Xt, y), [])"
| "spec_transform_steps ((name, t) # rest) Xt y =
     (case t of
        Est e \<Rightarrow>
          if FitResample \<in> set (attrs e)
          then (case spec_transform_steps rest Xt y of
                  (r, rest') \<Rightarrow> (r, (name, t) # rest'))
          else (case invoke e Transform [Xt, y] [] of
                  (Inl ex, e') \<Rightarrow> (Inl ex, (name, Est e') # rest)
                | (Inr v, e') \<Rightarrow>
                    (case unpack 2 v of
                       Inl ex \<Rightarrow> (Inl ex, (name, Est e') # rest)
                     | Inr vs \<Rightarrow>
                         (case vs of
                            [Xt', y'] \<Rightarrow>
                              (case spec_transform_steps rest Xt' y' of
                                 (r, rest') \<Rightarrow> (r, (name, Est e') # rest'))
                          | _ \<Rightarrow> (Inl ValueError, (name, Est e') # rest))))
      | _ \<Rightarrow>
          (case spec_transform_steps rest Xt y of
             (r, rest') \<Rightarrow> (r, (name, t) # rest')))"

text \<open>The states of the steps of a pipeline, in order.\<close>

definition step_states :: "pipeline \<Rightarrow> pyval list" where
  "step_states p = map (\<lambda>(name, t). case t of Est e \<Rightarrow> st e | _ \<Rightarrow> PyNone) (steps p)"

section \<open>Example objects\<close>

text \<open>
  A host for the examples: names must be unique, a clone starts from the state
  \<^verbatim>\<open>None\<close>, and \<^verbatim>\<open>_fit_transform_one\<close> uses \<^verbatim>\<open>fit_transform\<close> when the object has
  it and \<^verbatim>\<open>fit\<close> followed by \<^verbatim>\<open>transform\<close> otherwise.
\<close>

definition example_fit_transform_one ::
  "estimator \<Rightarrow> pyval \<Rightarrow> pyval \<Rightarrow> kwargs \<Rightarrow> (exn + pyval) \<times> estimator" where
  "example_fit_transform_one t X y kw =
     (if FitTransform \<in> set (attrs t) then invoke t FitTransform [X, y] kw
      else (case invoke t Fit [X, y] kw of
              (Inl ex, t') \<Rightarrow> (Inl ex, t')
            | (Inr PySelf, t') \<Rightarrow> invoke t' Transform [X] []
            | (Inr _, t') \<Rightarrow> (Inl AttributeError, t')))"

definition example_host :: host where
  "example_host =
     \<lparr>validate_names = (\<lambda>names. if distinct names then None else Some ValueError),
      clone_state = (\<lambda>s. PyNone),
      fit_transform_one = example_fit_transform_one\<rparr>"

definition double_all :: "pyval \<Rightarrow> pyval" where
  "double_all v =
     (case v of
        PyList xs \<Rightarrow> PyList (map (\<lambda>x. case x of PyInt i \<Rightarrow> PyInt (2 * i) | _ \<Rightarrow> x) xs)
      | _ \<Rightarrow> v)"

definition drop_first :: "pyval \<Rightarrow> pyval" where
  "drop_first v = (case v of PyList xs \<Rightarrow> PyList (tl xs) | _ \<Rightarrow> v)"

text \<open>A transformer in the host framework's style: \<^verbatim>\<open>fit(X, y)\<close>, \<^verbatim>\<open>transform(X)\<close>.\<close>

definition scaler_impl :: "attr \<Rightarrow> pyval list \<Rightarrow> kwargs \<Rightarrow> pyval \<Rightarrow> (exn + pyval) \<times> pyval" where
  "scaler_impl m args kw s =
     (if m = Fit \<and> length args = 2 then (Inr PySelf, PyStr ''fitted'')
      else if m = Transform \<and> length args = 1 then (Inr (double_all (args ! 0)), s)
      else (Inl TypeError, s))"

definition scaler :: estimator where
  "scaler = \<lparr>attrs = [Fit, Transform], is_pipeline = False, st = PyNone,
             impl = scaler_impl, calls = []\<rparr>"

text \<open>A transformer whose \<^verbatim>\<open>transform(X, y)\<close> takes and returns features and labels.\<close>

definition pair_scaler_impl :: "attr \<Rightarrow> pyval list \<Rightarrow> kwargs \<Rightarrow> pyval \<Rightarrow> (exn + pyval) \<times> pyval" where
  "pair_scaler_impl m args kw s =
     (if m = Fit \<and> length args = 2 then (Inr PySelf, PyStr ''fitted'')
      else if m = Transform \<and> length args = 2
           then (Inr (PyTuple [double_all (args ! 0), args ! 1]), s)
      else (Inl TypeError, s))"

definition pair_scaler :: estimator where
  "pair_scaler = \<lparr>attrs = [Fit, Transform], is_pipeline = False, st = PyNone,
                  impl = pair_scaler_impl, calls = []\<rparr>"

text \<open>
  A resampler as the module's docstring asks for: \<^verbatim>\<open>fit_resample(X, y)\<close> drops the first
  row of both, \<^verbatim>\<open>transform(X)\<close> drops the first row and reports rows 1 and 2 as kept
  and row 0 as outlier.
\<close>

definition remover_impl :: "attr \<Rightarrow> pyval list \<Rightarrow> kwargs \<Rightarrow> pyval \<Rightarrow> (exn + pyval) \<times> pyval" where
  "remover_impl m args kw s =
     (if m = FitResample \<and> length args = 2
      then (Inr (PyTuple [drop_first (args ! 0), drop_first (args ! 1)]), PyStr ''fitted'')
      else if m = Transform \<and> length args = 1
           then (Inr (PyTuple [drop_first (args ! 0), PyList [PyInt 1, PyInt 2], PyList [PyInt 0]]), s)
      else (Inl TypeError, s))"

definition remover :: estimator where
  "remover = \<lparr>attrs = [FitResample, Transform], is_pipeline = False, st = PyNone,
              impl = remover_impl, calls = []\<rparr>"

text \<open>A resampler whose \<^verbatim>\<open>transform\<close> keeps every row and reports \<^verbatim>\<open>None\<close>.\<close>

definition keeper_impl :: "attr \<Rightarrow> pyval list \<Rightarrow> kwargs \<Rightarrow> pyval \<Rightarrow> (exn + pyval) \<times> pyval" where
  "keeper_impl m args kw s =
     (if m = FitResample \<and> length args = 2
      then (Inr (PyTuple [args ! 0, args ! 1]), PyStr ''fitted'')
      else if m = Transform \<and> length args = 1
           then (Inr (PyTuple [args ! 0, PyNone, PyList []]), s)
      else (Inl TypeError, s))"

definition keeper :: estimator where
  "keeper = \<lparr>attrs = [FitResample, Transform], is_pipeline = False, st = PyNone,
             impl = keeper_impl, calls = []\<rparr>"

text \<open>A final estimator: \<^verbatim>\<open>fit\<close> remembers the labels, \<^verbatim>\<open>predict\<close> returns its input.\<close>

definition regressor_impl :: "attr \<Rightarrow> pyval list \<Rightarrow> kwargs \<Rightarrow> pyval \<Rightarrow> (exn + pyval) \<times> pyval" where
  "regressor_impl m args kw s =
     (if m = Fit \<and> length args = 2 then (Inr PySelf, args ! 1)
      else if m = Predict \<and> length args = 1 then (Inr (args ! 0), s)
      else (Inl TypeError, s))"

definition regressor :: estimator where
  "regressor = \<lparr>attrs = [Fit, Predict], is_pipeline = False, st = PyNone,
                impl = regressor_impl, calls = []\<rparr>"

text \<open>An object that has \<^verbatim>\<open>fit\<close> and nothing else.\<close>

definition fit_only :: estimator where
  "fit_only = \<lparr>attrs = [Fit], is_pipeline = False, st = PyNone,
               impl = (\<lambda>m args kw s. (Inl TypeError, s)), calls = []\<rparr>"

text \<open>An object of the host framework's pipeline class, used as a step.\<close>

definition inner_pipeline :: estimator where
  "inner_pipeline = \<lparr>attrs = [Fit, Transform], is_pipeline = True, st = PyNone,
                     impl = scaler_impl, calls = []\<rparr>"

text \<open>An object that has \<^verbatim>\<open>predict\<close> and nothing else.\<close>

definition predict_only :: estimator where
  "predict_only = \<lparr>attrs = [Predict], is_pipeline = False, st = PyNone,
                   impl = regressor_impl, calls = []\<rparr>"

text \<open>
  A transformer that counts how often it has been fitted, here after one fit.
\<close>

definition counter_impl :: "attr \<Rightarrow> pyval list \<Rightarrow> kwargs \<Rightarrow> pyval \<Rightarrow> (exn + pyval) \<times> pyval" where
  "counter_impl m args kw s =
     (if m = Fit \<and> length args = 2
      then (Inr PySelf, case s of PyInt n \<Rightarrow> PyInt (n + 1) | _ \<Rightarrow> PyInt 1)
      else if m = Transform \<and> length args = 1 then (Inr (args ! 0), s)
      else (Inl TypeError, s))"

definition fitted_counter :: estimator where
  "fitted_counter = \<lparr>attrs = [Fit, Transform], is_pipeline = False, st = PyInt 1,
                     impl = counter_impl, calls = []\<rparr>"

text \<open>
  An estimator whose \<^verbatim>\<open>fit\<close> keeps the keyword arguments it is called with, as a list of
  pairs of name and value.
\<close>

definition recorder_impl :: "attr \<Rightarrow> pyval list \<Rightarrow> kwargs \<Rightarrow> pyval \<Rightarrow> (exn + pyval) \<times> pyval" where
  "recorder_impl m args kw s =
     (if m = Fit \<and> length args = 2
      then (Inr PySelf, PyList (map (\<lambda>(k, v). PyTuple [PyStr k, v]) kw))
      else if m = Transform \<and> length args = 1 then (Inr (args ! 0), s)
      else (Inl TypeError, s))"

definition recorder :: estimator where
  "recorder = \<lparr>attrs = [Fit, Transform], is_pipeline = False, st = PyNone,
               impl = recorder_impl, calls = []\<rparr>"

definition mk_pipeline :: "(string \<times> step) list \<Rightarrow> pipeline" where
  "mk_pipeline ss = \<lparr>steps = ss, memory = None, to_keep_ind = None, outliers = None\<rparr>"

definition plain_pipeline :: pipeline where
  "plain_pipeline = mk_pipeline [(''scale'', Est scaler), (''reg'', Est regressor)]"

definition resample_pipeline :: pipeline where
  "resample_pipeline =
     mk_pipeline [(''scale'', Est scaler), (''rm'', Est remover), (''reg'', Est regressor)]"

definition keeper_pipeline :: pipeline where
  "keeper_pipeline =
     (mk_pipeline [(''keep'', Est keeper), (''reg'', Est regressor)])
       \<lparr>to_keep_ind := Some (PyList [PyInt 5]), outliers := Some (PyList [PyInt 6])\<rparr>"

definition scale_keeper_pipeline :: pipeline where
  "scale_keeper_pipeline =
     mk_pipeline [(''scale'', Est scaler), (''keep'', Est keeper), (''reg'', Est regressor)]"

definition nested_pipeline :: pipeline where
  "nested_pipeline = mk_pipeline [(''inner'', Est inner_pipeline), (''reg'', Est regressor)]"

definition none_final_pipeline :: pipeline where
  "none_final_pipeline = mk_pipeline [(''scale'', Est scaler), (''last'', StepNone)]"

definition no_fit_final_pipeline :: pipeline where
  "no_fit_final_pipeline = mk_pipeline [(''scale'', Est scaler), (''reg'', Est predict_only)]"

definition two_scaler_pipeline :: pipeline where
  "two_scaler_pipeline =
     mk_pipeline [(''scale'', Est pair_scaler), (''rm'', Est remover), (''again'', Est pair_scaler)]"

text \<open>A pipeline whose caching location is the empty string.\<close>

definition empty_location_pipeline :: pipeline where
  "empty_location_pipeline =
     (mk_pipeline [(''count'', Est fitted_counter), (''reg'', Est regressor)])\<lparr>memory := Some []\<rparr>"

definition recorder_pipeline :: pipeline where
  "recorder_pipeline = mk_pipeline [(''first'', Est recorder), (''second'', Est recorder)]"

text \<open>A pipeline with a caching location.\<close>

definition cached_pipeline :: pipeline where
  "cached_pipeline =
     (mk_pipeline [(''count'', Est fitted_counter), (''reg'', Est regressor)])
       \<lparr>memory := Some ''cache''\<rparr>"

definition scaler_passthrough_pipeline :: pipeline where
  "scaler_passthrough_pipeline = mk_pipeline [(''scale'', Est scaler), (''last'', Passthrough)]"

definition fit_only_pipeline :: pipeline where
  "fit_only_pipeline = mk_pipeline [(''a'', Est fit_only), (''reg'', Est regressor)]"

definition pair_pipeline :: pipeline where
  "pair_pipeline =
     mk_pipeline [(''scale'', Est pair_scaler), (''rm'', Est remover), (''last'', Passthrough)]"

definition X3 :: pyval where
  "X3 = PyList [PyInt 1, PyInt 2, PyInt 3]"

definition y3 :: pyval where
  "y3 = PyList [PyInt 10, PyInt 20, PyInt 30]"

section \<open>Evaluating the examples\<close>

lemmas example_defs =
  example_host_def mk_pipeline_def scaler_def pair_scaler_def remover_def keeper_def
  regressor_def fit_only_def plain_pipeline_def resample_pipeline_def keeper_pipeline_def
  fit_only_pipeline_def pair_pipeline_def scale_keeper_pipeline_def X3_def y3_def
  inner_pipeline_def predict_only_def fitted_counter_def nested_pipeline_def
  none_final_pipeline_def no_fit_final_pipeline_def two_scaler_pipeline_def
  empty_location_pipeline_def recorder_def recorder_pipeline_def cached_pipeline_def
  scaler_passthrough_pipeline_def

lemmas model_defs =
  invoke_def clone_def mem_set_def final_estimator_def
  base_iter_def p_iter_def check_transformer_def p_validate_steps_def init_params_def
  p_fit_resample_one_def set_step_def fit_step_def p_fit_def call_final_def fit_def
  fit_transform_def fit_resample_def delegate_has_def fit_predict_def predict_step_def
  predict_def predict_proba_def transform_step_def p_transform_def transform_property_def
  transform_def exposed_def example_fit_transform_one_def double_all_def drop_first_def
  scaler_impl_def pair_scaler_impl_def remover_impl_def keeper_impl_def regressor_impl_def
  counter_impl_def step_states_def recorder_impl_def

lemmas baseline_defs =
  baseline_check_transformer_def baseline_validate_steps_def baseline_fit_step_def
  baseline_p_fit_def baseline_fit_def baseline_apply_step_def baseline_predict_def
  caching_enabled_def baseline_transform_def

lemma attrs_clone: "attrs (clone h e) = attrs e"
  by (simp add: clone_def)

section \<open>Validation\<close>

text \<open>
  The loop over the intermediate steps raises a type error exactly when one of them is
  rejected by the loop's body.
\<close>

lemma check_transformers_eq:
  "check_transformers ts =
     (if \<exists>t\<in>set ts.
           \<not> is_skipped t
           \<and> (\<not> (hasattr t Fit \<or> hasattr t FitTransform \<or> hasattr t FitResample)
              \<or> \<not> (hasattr t Transform \<or> hasattr t FitResample)
              \<or> (case t of Est e \<Rightarrow> is_pipeline e | _ \<Rightarrow> False))
      then Some TypeError else None)"
proof (induction ts)
  case Nil
  show ?case by simp
next
  case (Cons t ts)
  show ?case
  proof (cases "check_transformer t")
    case None
    then show ?thesis using Cons
      by (auto simp: check_transformer_def split: if_splits)
  next
    case (Some ex)
    then show ?thesis
      by (auto simp: check_transformer_def split: if_splits)
  qed
qed

text \<open>
  C8, as amended. When the list of steps is not empty and the host accepts the names,
  step validation raises a type error exactly when an intermediate step that is neither
  \<^verbatim>\<open>None\<close> nor \<^verbatim>\<open>'passthrough'\<close> lacks the fit-like capability (\<^verbatim>\<open>fit\<close>,
  \<^verbatim>\<open>fit_transform\<close> or \<^verbatim>\<open>fit_resample\<close>) or lacks the transform-like capability
  (\<^verbatim>\<open>transform\<close> or \<^verbatim>\<open>fit_resample\<close>) or is itself a pipeline, or when the final
  step is neither \<^verbatim>\<open>None\<close> nor \<^verbatim>\<open>'passthrough'\<close> and lacks \<^verbatim>\<open>fit\<close>; validation
  passes otherwise. Lacking one of the two capabilities is enough for the rejection.
\<close>

theorem validate_steps_bad_shapes:
  assumes "steps p \<noteq> []" and "validate_names h (map fst (steps p)) = None"
  shows "p_validate_steps h p =
     (if (\<exists>t\<in>set (butlast (map snd (steps p))).
            \<not> is_skipped t
            \<and> (\<not> (hasattr t Fit \<or> hasattr t FitTransform \<or> hasattr t FitResample)
               \<or> \<not> (hasattr t Transform \<or> hasattr t FitResample)
               \<or> (case t of Est e \<Rightarrow> is_pipeline e | _ \<Rightarrow> False)))
         \<or> (\<not> is_skipped (last (map snd (steps p))) \<and> \<not> hasattr (last (map snd (steps p))) Fit)
      then Some TypeError else None)"
  using assms
  by (simp add: p_validate_steps_def list.case_eq_if Let_def check_transformers_eq)

theorem validate_steps_bad_shapes_witness:
  "steps fit_only_pipeline \<noteq> []
   \<and> validate_names example_host (map fst (steps fit_only_pipeline)) = None
   \<and> p_validate_steps example_host fit_only_pipeline = Some TypeError
   \<and> steps plain_pipeline \<noteq> []
   \<and> validate_names example_host (map fst (steps plain_pipeline)) = None
   \<and> p_validate_steps example_host plain_pipeline = None"
proof -
  have a: "steps fit_only_pipeline \<noteq> []" by (simp add: example_defs)
  have b: "validate_names example_host (map fst (steps fit_only_pipeline)) = None"
    by (simp add: example_defs)
  have c: "steps plain_pipeline \<noteq> []" by (simp add: example_defs)
  have d: "validate_names example_host (map fst (steps plain_pipeline)) = None"
    by (simp add: example_defs)
  show ?thesis
    using a b c d validate_steps_bad_shapes [OF a b] validate_steps_bad_shapes [OF c d]
    by (simp add: example_defs)
qed

text \<open>
  C8 as the specification states it fails: an intermediate step that has \<^verbatim>\<open>fit\<close> and
  nothing else does not lack both capabilities, is not a pipeline, and is rejected with a
  type error all the same.
\<close>

theorem validate_fit_only_counterexample:
  "p_validate_steps example_host fit_only_pipeline = Some TypeError
   \<and> \<not> spec_bad_shape fit_only_pipeline"
  by (simp add: example_defs p_validate_steps_def check_transformer_def
      spec_bad_shape_def spec_bad_intermediate_def)

text \<open>
  C1, as amended. An intermediate step that exposes \<^verbatim>\<open>fit_resample\<close> is not rejected
  for exposing \<^verbatim>\<open>transform\<close> or \<^verbatim>\<open>fit_transform\<close> as well: unless it is itself a
  pipeline, validation gives the verdict it would give with \<^verbatim>\<open>'passthrough'\<close> in the
  step's place, and the loop of \<^verbatim>\<open>_fit\<close> treats the step as a resampler, calling its
  \<^verbatim>\<open>fit_resample\<close> on features and labels.
\<close>

theorem resample_with_transform_accepted:
  assumes "steps p = pre @ (name, Est e) # post" and "post \<noteq> []"
    and "FitResample \<in> set (attrs e)" and "\<not> is_pipeline e"
  shows "p_validate_steps h p = p_validate_steps h (p\<lparr>steps := pre @ (name, Passthrough) # post\<rparr>)
       \<and> fit_step h fps (idx, name, Est e) X y ft p =
           (case fps name of
              None \<Rightarrow> (Inl KeyError, p)
            | Some kw \<Rightarrow>
                (case p_fit_resample_one (if mem_set p then clone h e else e) X y kw of
                   (Inl ex, t') \<Rightarrow> (Inl ex, if mem_set p then p else set_step p idx name t')
                 | (Inr (X', y'), fitted) \<Rightarrow>
                     (Inr (X', y', Some fitted), set_step p idx name fitted)))"
proof
  show "p_validate_steps h p = p_validate_steps h (p\<lparr>steps := pre @ (name, Passthrough) # post\<rparr>)"
    using assms
    by (simp add: p_validate_steps_def list.case_eq_if Let_def check_transformers_eq
        butlast_append split: option.split)
next
  show "fit_step h fps (idx, name, Est e) X y ft p =
           (case fps name of
              None \<Rightarrow> (Inl KeyError, p)
            | Some kw \<Rightarrow>
                (case p_fit_resample_one (if mem_set p then clone h e else e) X y kw of
                   (Inl ex, t') \<Rightarrow> (Inl ex, if mem_set p then p else set_step p idx name t')
                 | (Inr (X', y'), fitted) \<Rightarrow>
                     (Inr (X', y', Some fitted), set_step p idx name fitted)))"
    using assms(3) by (simp add: fit_step_def attrs_clone)
qed

theorem resample_with_transform_accepted_witness:
  "steps resample_pipeline = [(''scale'', Est scaler)] @ (''rm'', Est remover) # [(''reg'', Est regressor)]
   \<and> FitResample \<in> set (attrs remover) \<and> Transform \<in> set (attrs remover)
   \<and> \<not> is_pipeline remover
   \<and> p_validate_steps example_host resample_pipeline = None
   \<and> fst (fit_step example_host (init_params (steps resample_pipeline)) (1, ''rm'', Est remover)
            X3 y3 None resample_pipeline)
       = Inr (PyList [PyInt 2, PyInt 3], PyList [PyInt 20, PyInt 30],
              Some (remover\<lparr>st := PyStr ''fitted'', calls := [FitResample]\<rparr>))"
proof -
  have a: "steps resample_pipeline
            = [(''scale'', Est scaler)] @ (''rm'', Est remover) # [(''reg'', Est regressor)]"
    by (simp add: example_defs)
  have b: "[(''reg'', Est regressor)] \<noteq> []" by simp
  have c: "FitResample \<in> set (attrs remover)" by (simp add: example_defs)
  have d: "\<not> is_pipeline remover" by (simp add: example_defs)
  show ?thesis
    using resample_with_transform_accepted [OF a b c d, of example_host
        "init_params (steps resample_pipeline)" 1 X3 y3 None]
    by (simp add: example_defs model_defs)
qed

text \<open>
  C1 as the specification states it fails: the second step of the example pipeline has
  both \<^verbatim>\<open>transform\<close> and \<^verbatim>\<open>fit_resample\<close>, validation passes and \<^verbatim>\<open>fit\<close>
  runs to its end.
\<close>

theorem resample_with_transform_fits_counterexample:
  "hasattr (snd (steps resample_pipeline ! 1)) Transform
   \<and> hasattr (snd (steps resample_pipeline ! 1)) FitResample
   \<and> p_validate_steps example_host resample_pipeline = None
   \<and> fst (fit example_host X3 y3 [] resample_pipeline) = Inr ()"
  by (simp add: example_defs model_defs)

section \<open>The public surface\<close>

text \<open>
  C6, as amended. On a pipeline with at least one step, \<^verbatim>\<open>fit\<close>, \<^verbatim>\<open>fit_transform\<close>
  and \<^verbatim>\<open>fit_resample\<close> are always exposed, whatever the final step supports;
  \<^verbatim>\<open>fit_predict\<close>, \<^verbatim>\<open>predict\<close> and \<^verbatim>\<open>predict_proba\<close> are exposed if and only if
  the final step has the method of the same name; \<^verbatim>\<open>transform\<close> is exposed if and only
  if the final step is \<^verbatim>\<open>None\<close> or \<^verbatim>\<open>'passthrough'\<close> or has \<^verbatim>\<open>transform\<close>.
\<close>

theorem exposed_methods:
  assumes "steps p \<noteq> []"
  shows "exposed p Fit \<and> exposed p FitTransform \<and> exposed p FitResample
       \<and> (exposed p FitPredict \<longleftrightarrow> hasattr (snd (last (steps p))) FitPredict)
       \<and> (exposed p Predict \<longleftrightarrow> hasattr (snd (last (steps p))) Predict)
       \<and> (exposed p PredictProba \<longleftrightarrow> hasattr (snd (last (steps p))) PredictProba)
       \<and> (exposed p Transform \<longleftrightarrow>
            is_skipped (snd (last (steps p))) \<or> hasattr (snd (last (steps p))) Transform)"
  using assms
  by (cases "snd (last (steps p))")
     (simp_all add: exposed_def delegate_has_def transform_property_def final_estimator_def
        list.case_eq_if)

theorem exposed_methods_witness:
  "steps plain_pipeline \<noteq> []
   \<and> exposed plain_pipeline Fit \<and> exposed plain_pipeline FitTransform
   \<and> exposed plain_pipeline FitResample \<and> \<not> exposed plain_pipeline FitPredict
   \<and> exposed plain_pipeline Predict \<and> \<not> exposed plain_pipeline PredictProba
   \<and> \<not> exposed plain_pipeline Transform \<and> exposed pair_pipeline Transform"
proof -
  have a: "steps plain_pipeline \<noteq> []" by (simp add: example_defs)
  have b: "steps pair_pipeline \<noteq> []" by (simp add: example_defs)
  show ?thesis
    using a exposed_methods [OF a] exposed_methods [OF b]
    by (simp add: example_defs)
qed

text \<open>
  C6 as the specification states it fails: the final step of the example pipeline has no
  \<^verbatim>\<open>fit_resample\<close>, and the pipeline's \<^verbatim>\<open>fit_resample\<close> is exposed all the same.
\<close>

theorem exposed_fit_resample_counterexample:
  "exposed plain_pipeline FitResample
   \<and> \<not> hasattr (snd (last (steps plain_pipeline))) FitResample"
  by (simp add: example_defs exposed_def)

section \<open>What fitting leaves alone\<close>

text \<open>
  The generator yields each step with its own index, and stops before the last step when
  asked to.
\<close>

lemma take_enumerate: "take m (enumerate n xs) = enumerate n (take m xs)"
proof (induction xs arbitrary: m n)
  case Nil
  show ?case by simp
next
  case (Cons x xs)
  show ?case by (cases m) (simp_all add: Cons.IH)
qed

lemma base_iter_mem:
  assumes "(i, n, t) \<in> set (base_iter ss wfin fpass)"
  shows "i < (if wfin then length ss else length ss - 1) \<and> ss ! i = (n, t)
         \<and> (fpass \<longrightarrow> \<not> is_skipped t)"
  using assms
  by (auto simp: base_iter_def take_enumerate in_set_enumerate_eq)

lemma base_iter_set:
  "(i, n, t) \<in> set (base_iter ss wfin fpass) \<longleftrightarrow>
     i < (if wfin then length ss else length ss - 1) \<and> ss ! i = (n, t)
     \<and> (fpass \<longrightarrow> \<not> is_skipped t)"
  by (auto simp: base_iter_def take_enumerate in_set_enumerate_eq)

lemma base_iter_distinct: "distinct (map fst (base_iter ss wfin fpass))"
proof -
  have "distinct (map fst (take k (enumerate 0 ss)))" for k
    by (simp add: take_enumerate)
  then show ?thesis
    unfolding base_iter_def by (rule distinct_map_filter)
qed

text \<open>
  The loop of \<^verbatim>\<open>_fit\<close> writes to the entries of the intermediate steps only: the
  number of steps, the last step and the other attributes of the pipeline stay as they are.
\<close>

lemma fit_step_steps:
  assumes "fit_step h fps (idx, name, t) X y ft p = (r, p')"
  shows "(steps p' = steps p \<or> (\<exists>e. steps p' = (steps p)[idx := (name, Est e)]))
         \<and> memory p' = memory p \<and> to_keep_ind p' = to_keep_ind p \<and> outliers p' = outliers p"
  using assms
  by (auto simp: fit_step_def set_step_def Let_def
      split: step.splits option.splits if_splits prod.splits sum.splits)

lemma last_update_before: "idx < length xs - 1 \<Longrightarrow> last (xs[idx := v]) = last xs"
  by (cases "xs = []") (auto simp: last_list_update)

lemma fit_loop_frame:
  assumes "fit_loop h fps items X y ft p = (r, p')"
    and "\<forall>item\<in>set items. fst item < length (steps p) - 1"
  shows "length (steps p') = length (steps p) \<and> last (steps p') = last (steps p)
         \<and> memory p' = memory p \<and> to_keep_ind p' = to_keep_ind p \<and> outliers p' = outliers p"
  using assms
proof (induction items arbitrary: X y ft p)
  case Nil
  then show ?case by simp
next
  case (Cons item items)
  obtain idx name t where item: "item = (idx, name, t)" by (cases item) auto
  obtain r1 p1 where s1: "fit_step h fps item X y ft p = (r1, p1)" by (cases "fit_step h fps item X y ft p") auto
  from Cons.prems(2) item have idx: "idx < length (steps p) - 1" by simp
  from fit_step_steps [OF s1 [unfolded item]] idx
  have fr: "length (steps p1) = length (steps p)" "last (steps p1) = last (steps p)"
    "memory p1 = memory p" "to_keep_ind p1 = to_keep_ind p" "outliers p1 = outliers p"
    by (auto simp: last_update_before)
  show ?case
  proof (cases r1)
    case (Inl ex)
    with Cons.prems(1) s1 have "p' = p1" by simp
    with fr show ?thesis by simp
  next
    case (Inr v)
    obtain X' y' ft' where v: "v = (X', y', ft')" by (cases v) auto
    from Cons.prems(1) s1 Inr v have "fit_loop h fps items X' y' ft' p1 = (r, p')" by simp
    moreover from Cons.prems(2) fr(1) have "\<forall>item\<in>set items. fst item < length (steps p1) - 1"
      by simp
    ultimately show ?thesis using Cons.IH fr by metis
  qed
qed

lemma p_fit_frame:
  assumes "p_fit h X y kw p = (r, p')"
  shows "length (steps p') = length (steps p) \<and> last (steps p') = last (steps p)
         \<and> memory p' = memory p \<and> to_keep_ind p' = to_keep_ind p \<and> outliers p' = outliers p"
proof (cases "\<exists>fps. p_validate_steps h p = None \<and> route_params kw (init_params (steps p)) = Inr fps")
  case False
  with assms have "p' = p"
    by (auto simp: p_fit_def split: option.splits sum.splits)
  then show ?thesis by simp
next
  case True
  then obtain fps where v: "p_validate_steps h p = None"
    and fps: "route_params kw (init_params (steps p)) = Inr fps" by auto
  obtain r1 p1 where l: "fit_loop h fps (p_iter p False False False) X y None p = (r1, p1)"
    by (cases "fit_loop h fps (p_iter p False False False) X y None p") auto
  have "\<forall>item\<in>set (p_iter p False False False). fst item < length (steps p) - 1"
    using base_iter_mem [of _ _ _ "steps p" False False] by (auto simp: p_iter_def)
  from fit_loop_frame [OF l this]
  have fr: "length (steps p1) = length (steps p) \<and> last (steps p1) = last (steps p)
         \<and> memory p1 = memory p \<and> to_keep_ind p1 = to_keep_ind p \<and> outliers p1 = outliers p" .
  from assms v fps l have "p' = p1"
    by (auto simp: p_fit_def split: sum.splits step.splits option.splits)
  with fr show ?thesis by simp
qed

section \<open>Transformation\<close>

text \<open>
  A step of \<^verbatim>\<open>_transform\<close> writes to its own entry only, and what it returns does not
  depend on the rest of the pipeline.
\<close>

lemma transform_step_steps:
  assumes "transform_step (idx, name, t) Xt y p = (r, p')"
  shows "(steps p' = steps p \<or> (\<exists>e. steps p' = (steps p)[idx := (name, Est e)]))
         \<and> memory p' = memory p \<and> to_keep_ind p' = to_keep_ind p \<and> outliers p' = outliers p"
  using assms
  by (auto simp: transform_step_def set_step_def
      split: step.splits prod.splits sum.splits list.splits)

lemma transform_step_fst:
  "fst (transform_step item Xt y p) = fst (transform_step item Xt y q)"
  by (auto simp: transform_step_def split: step.splits prod.splits sum.splits list.splits)

lemma transform_loop_fst:
  "fst (transform_loop items Xt y p) = fst (transform_loop items Xt y q)"
proof (induction items arbitrary: Xt y p q)
  case Nil
  show ?case by simp
next
  case (Cons item items)
  obtain r1 p1 where a: "transform_step item Xt y p = (r1, p1)"
    by (cases "transform_step item Xt y p") auto
  obtain r2 q1 where b: "transform_step item Xt y q = (r2, q1)"
    by (cases "transform_step item Xt y q") auto
  from transform_step_fst [of item Xt y p q] a b have r: "r2 = r1" by simp
  show ?case
  proof (cases r1)
    case (Inl ex)
    with a b r show ?thesis by simp
  next
    case (Inr v)
    obtain Xt' y' where "v = (Xt', y')" by (cases v) auto
    with Inr a b r Cons.IH [of Xt' y' p1 q1] show ?thesis by simp
  qed
qed

lemma transform_loop_untouched:
  assumes "transform_loop items Xt y p = (r, p')" and "i \<notin> fst ` set items"
  shows "steps p' ! i = steps p ! i"
  using assms
proof (induction items arbitrary: Xt y p)
  case Nil
  then show ?case by simp
next
  case (Cons item items)
  obtain idx name t where item: "item = (idx, name, t)" by (cases item) auto
  obtain r1 p1 where a: "transform_step item Xt y p = (r1, p1)"
    by (cases "transform_step item Xt y p") auto
  from Cons.prems(2) item have ne: "i \<noteq> idx" and rest: "i \<notin> fst ` set items" by auto
  from transform_step_steps [OF a [unfolded item]] ne
  have s1: "steps p1 ! i = steps p ! i" by auto
  show ?case
  proof (cases r1)
    case (Inl ex)
    with Cons.prems(1) a have "p' = p1" by simp
    with s1 show ?thesis by simp
  next
    case (Inr v)
    obtain Xt' y' where "v = (Xt', y')" by (cases v) auto
    with Inr a Cons.prems(1) have "transform_loop items Xt' y' p1 = (r, p')" by simp
    from Cons.IH [OF this rest] s1 show ?thesis by simp
  qed
qed

lemma filter_enumerate_without_resamplers:
  "filter (\<lambda>(idx, name, t). \<not> is_skipped t \<and> \<not> hasattr t FitResample)
     (enumerate n (without_resamplers ss))
   = filter (\<lambda>(idx, name, t). \<not> is_skipped t \<and> \<not> hasattr t FitResample) (enumerate n ss)"
  by (induction ss arbitrary: n) (auto simp: without_resamplers_def split: if_splits)

lemma p_iter_all:
  "p_iter p True True True
   = filter (\<lambda>(idx, name, t). \<not> is_skipped t \<and> \<not> hasattr t FitResample)
       (enumerate 0 (steps p))"
  by (simp add: p_iter_def base_iter_def case_prod_unfold conj_commute)

lemma p_transform_fst:
  "fst (p_transform X y p) =
     (case fst (transform_loop (p_iter p True True True) X y p) of
        Inl ex \<Rightarrow> Inl ex
      | Inr (Xt, y') \<Rightarrow> Inr (PyTuple [Xt, y']))"
  by (simp add: p_transform_def split: prod.splits sum.splits)

section \<open>Prediction\<close>

text \<open>
  A method that returns has run and is recorded in the history; the object keeps its class.
\<close>

lemma invoke_Inr:
  assumes "invoke e m args kw = (Inr v, e')"
  shows "calls e' = calls e @ [m] \<and> m \<in> set (attrs e)"
  using assms by (auto simp: invoke_def split: if_splits prod.splits)

text \<open>
  A step of the prediction loop writes to its own entry; it touches the bookkeeping
  attributes only when the step has \<^verbatim>\<open>fit_resample\<close>. The call of the final step leaves
  the bookkeeping attributes alone.
\<close>

lemma predict_step_Inr:
  assumes "predict_step (idx, name, t) Xt p = (Inr Xt', p')"
  shows "\<exists>e e'. t = Est e \<and> steps p' = (steps p)[idx := (name, Est e')]
           \<and> calls e' = calls e @ [Transform]"
  using assms
  by (auto simp: predict_step_def set_step_def dest: invoke_Inr
      split: step.splits prod.splits sum.splits list.splits if_splits)

lemma predict_step_keeps_record:
  assumes "\<not> hasattr t FitResample"
  shows "to_keep_ind (snd (predict_step (idx, name, t) Xt p)) = to_keep_ind p
         \<and> outliers (snd (predict_step (idx, name, t) Xt p)) = outliers p"
  using assms
  by (auto simp: predict_step_def set_step_def split: step.splits prod.splits)

lemma predict_loop_keeps_record:
  assumes "\<forall>item\<in>set items. \<not> hasattr (snd (snd item)) FitResample"
  shows "to_keep_ind (snd (predict_loop items Xt p)) = to_keep_ind p
         \<and> outliers (snd (predict_loop items Xt p)) = outliers p"
  using assms
proof (induction items arbitrary: Xt p)
  case Nil
  show ?case by simp
next
  case (Cons item items)
  obtain idx name t where item: "item = (idx, name, t)" by (cases item) auto
  obtain r1 p1 where a: "predict_step item Xt p = (r1, p1)"
    by (cases "predict_step item Xt p") auto
  from Cons.prems item have "\<not> hasattr t FitResample" by simp
  from predict_step_keeps_record [OF this, of idx name Xt p] a item
  have k: "to_keep_ind p1 = to_keep_ind p" "outliers p1 = outliers p" by simp_all
  show ?case
  proof (cases r1)
    case (Inl ex)
    with a k show ?thesis by simp
  next
    case (Inr Xt')
    from Cons.prems have "\<forall>item\<in>set items. \<not> hasattr (snd (snd item)) FitResample" by simp
    from Cons.IH [OF this, of Xt' p1] a Inr k show ?thesis by simp
  qed
qed

lemma predict_loop_append:
  "predict_loop (xs @ ys) Xt p =
     (case predict_loop xs Xt p of
        (Inl ex, p') \<Rightarrow> (Inl ex, p')
      | (Inr Xt', p') \<Rightarrow> predict_loop ys Xt' p')"
proof (induction xs arbitrary: Xt p)
  case Nil
  show ?case by simp
next
  case (Cons x xs)
  show ?case
    by (cases "predict_step x Xt p") (auto simp: Cons.IH split: sum.splits)
qed

lemma call_final_keeps_record:
  "to_keep_ind (snd (call_final p m args kw)) = to_keep_ind p
   \<and> outliers (snd (call_final p m args kw)) = outliers p"
  by (auto simp: call_final_def set_step_def split: list.splits step.splits prod.splits)

lemma predict_loop_last_resampler:
  assumes "items = pre @ (idx, name, Est e) # post"
    and "FitResample \<in> set (attrs e)"
    and "\<forall>item\<in>set post. \<not> hasattr (snd (snd item)) FitResample"
    and "predict_loop pre X p = (Inr Xt, p1)"
    and "invoke e Transform [Xt] [] = (Inr (PyTuple [Xt', keep, outl]), e')"
  shows "to_keep_ind (snd (predict_loop items X p))
           = (if keep \<noteq> PyNone then Some keep else to_keep_ind p1)
         \<and> outliers (snd (predict_loop items X p))
           = (if keep \<noteq> PyNone then Some outl else outliers p1)"
proof -
  obtain p2 where s: "predict_step (idx, name, Est e) Xt p1 = (Inr Xt', p2)"
    and k: "to_keep_ind p2 = (if keep \<noteq> PyNone then Some keep else to_keep_ind p1)"
           "outliers p2 = (if keep \<noteq> PyNone then Some outl else outliers p1)"
    using assms(2,5) by (simp add: predict_step_def set_step_def)
  have "predict_loop items X p = predict_loop post Xt' p2"
    using assms(1,4) s by (simp add: predict_loop_append)
  with predict_loop_keeps_record [OF assms(3), of Xt' p2] k show ?thesis by simp
qed

text \<open>
  A prediction loop that returns has called \<^verbatim>\<open>transform\<close> once on each step it
  iterates over, and nothing else.
\<close>

lemma predict_loop_calls:
  assumes "predict_loop items X p = (Inr Xt, p')"
    and "distinct (map fst items)"
    and "\<forall>item\<in>set items. fst item < length (steps p)"
  shows "length (steps p') = length (steps p)
       \<and> (\<forall>i. i \<notin> fst ` set items \<longrightarrow> steps p' ! i = steps p ! i)
       \<and> (\<forall>item\<in>set items. \<exists>e e'. snd (snd item) = Est e
             \<and> steps p' ! fst item = (fst (snd item), Est e')
             \<and> calls e' = calls e @ [Transform])"
  using assms
proof (induction items arbitrary: X p)
  case Nil
  then show ?case by simp
next
  case (Cons item items)
  obtain idx name t where item: "item = (idx, name, t)" by (cases item) auto
  obtain r1 p1 where a: "predict_step item X p = (r1, p1)"
    by (cases "predict_step item X p") auto
  with Cons.prems(1) obtain X1 where r1: "r1 = Inr X1"
    by (cases r1) auto
  with Cons.prems(1) a have rest: "predict_loop items X1 p1 = (Inr Xt, p')" by simp
  from predict_step_Inr [OF a [unfolded item r1]]
  obtain e e' where t: "t = Est e" and s1: "steps p1 = (steps p)[idx := (name, Est e')]"
    and c: "calls e' = calls e @ [Transform]" by blast
  from Cons.prems(2) item have nin: "idx \<notin> fst ` set items" and d: "distinct (map fst items)"
    by auto
  from Cons.prems(3) item have idx: "idx < length (steps p)" by simp
  from Cons.prems(3) s1 have b: "\<forall>item\<in>set items. fst item < length (steps p1)" by simp
  from Cons.IH [OF rest d b]
  have L: "length (steps p') = length (steps p1)"
    and U: "\<forall>i. i \<notin> fst ` set items \<longrightarrow> steps p' ! i = steps p1 ! i"
    and T: "\<forall>item\<in>set items. \<exists>e e'. snd (snd item) = Est e
             \<and> steps p' ! fst item = (fst (snd item), Est e')
             \<and> calls e' = calls e @ [Transform]"
    by blast+
  have 1: "length (steps p') = length (steps p)" using L s1 by simp
  have 2: "\<forall>i. i \<notin> fst ` set (item # items) \<longrightarrow> steps p' ! i = steps p ! i"
    using U s1 item by auto
  have "steps p' ! idx = (name, Est e')" using U nin s1 idx by simp
  with t c item T
  have 3: "\<forall>it\<in>set (item # items). \<exists>e e'. snd (snd it) = Est e
             \<and> steps p' ! fst it = (fst (snd it), Est e')
             \<and> calls e' = calls e @ [Transform]"
    by auto
  from 1 2 3 show ?case by blast
qed

lemma predict_like_history:
  assumes d: "delegate_has p m = None"
    and l: "predict_loop (p_iter p False True False) X p = (Inr Xt, p1)"
    and c: "call_final p1 m [Xt] kw = (Inr r, p')"
  shows "\<forall>i<length (steps p). history p' i = history p i @
           (if is_skipped (snd (steps p ! i)) then []
            else if i = length (steps p) - 1 then [m] else [Transform])"
proof (intro allI impI)
  fix i
  assume i: "i < length (steps p)"
  let ?items = "p_iter p False True False"
  let ?n1 = "length (steps p) - 1"
  have items: "?items = base_iter (steps p) False True" by (simp add: p_iter_def)
  have dis: "distinct (map fst ?items)" unfolding items by (rule base_iter_distinct)
  have bnd: "\<forall>item\<in>set ?items. fst item < length (steps p)"
    unfolding items using base_iter_set [of _ _ _ "steps p" False True] by fastforce
  from predict_loop_calls [OF l dis bnd]
  have L: "length (steps p1) = length (steps p)"
    and U: "\<forall>i. i \<notin> fst ` set ?items \<longrightarrow> steps p1 ! i = steps p ! i"
    and T: "\<forall>item\<in>set ?items. \<exists>e e'. snd (snd item) = Est e
             \<and> steps p1 ! fst item = (fst (snd item), Est e')
             \<and> calls e' = calls e @ [Transform]"
    by blast+
  have n1: "?n1 \<notin> fst ` set ?items"
    unfolding items using base_iter_set [of ?n1 _ _ "steps p" False True] by fastforce
  from i have ne: "steps p \<noteq> []" "steps p1 \<noteq> []" using L by auto
  have last1: "last (steps p1) = steps p ! ?n1"
    using U n1 ne L by (simp add: last_conv_nth)
  from c ne obtain ef ef' where ef: "snd (last (steps p1)) = Est ef"
    and inv: "invoke ef m [Xt] kw = (Inr r, ef')"
    and s': "steps p' = (steps p1)[?n1 := (fst (last (steps p1)), Est ef')]"
    using L
    by (auto simp: call_final_def set_step_def split: list.splits step.splits prod.splits)
  from invoke_Inr [OF inv] have cf: "calls ef' = calls ef @ [m]" by simp
  show "history p' i = history p i @
           (if is_skipped (snd (steps p ! i)) then []
            else if i = length (steps p) - 1 then [m] else [Transform])"
  proof (cases "i = ?n1")
    case True
    then show ?thesis
      using s' ef cf last1 i L by (simp add: history_def)
  next
    case False
    with s' have same: "steps p' ! i = steps p1 ! i" by simp
    show ?thesis
    proof (cases "is_skipped (snd (steps p ! i))")
      case True
      then have "i \<notin> fst ` set ?items"
        unfolding items using base_iter_set [of i _ _ "steps p" False True] by fastforce
      with U same True show ?thesis by (simp add: history_def)
    next
      case nsk: False
      have "(i, fst (steps p ! i), snd (steps p ! i)) \<in> set ?items"
        unfolding items
        using i False nsk base_iter_set [of i "fst (steps p ! i)" "snd (steps p ! i)" "steps p" False True]
        by simp
      with T obtain e e' where "snd (steps p ! i) = Est e"
        "steps p1 ! i = (fst (steps p ! i), Est e')" "calls e' = calls e @ [Transform]"
        by fastforce
      with same False nsk show ?thesis by (simp add: history_def)
    qed
  qed
qed

lemma predict_like_unfold:
  assumes "fst (case delegate_has p m of
                  Some ex \<Rightarrow> (Inl ex, p)
                | None \<Rightarrow>
                    (case predict_loop (p_iter p False True False) X p of
                       (Inl ex, p') \<Rightarrow> (Inl ex, p')
                     | (Inr Xt, p') \<Rightarrow> call_final p' m [Xt] kw)) = Inr r"
  shows "delegate_has p m = None
       \<and> (\<exists>Xt p1. predict_loop (p_iter p False True False) X p = (Inr Xt, p1)
            \<and> (case delegate_has p m of
                  Some ex \<Rightarrow> (Inl ex, p)
                | None \<Rightarrow>
                    (case predict_loop (p_iter p False True False) X p of
                       (Inl ex, p') \<Rightarrow> (Inl ex, p')
                     | (Inr Xt, p') \<Rightarrow> call_final p' m [Xt] kw)) = call_final p1 m [Xt] kw
            \<and> fst (call_final p1 m [Xt] kw) = Inr r)"
  using assms
  by (cases "delegate_has p m"; cases "predict_loop (p_iter p False True False) X p")
     (auto split: sum.splits)

lemma predict_like_summary:
  assumes "fst (case delegate_has p m of
                  Some ex \<Rightarrow> (Inl ex, p)
                | None \<Rightarrow>
                    (case predict_loop (p_iter p False True False) X p of
                       (Inl ex, p') \<Rightarrow> (Inl ex, p')
                     | (Inr Xt, p') \<Rightarrow> call_final p' m [Xt] kw)) = Inr r"
    and "res = (case delegate_has p m of
                  Some ex \<Rightarrow> (Inl ex, p)
                | None \<Rightarrow>
                    (case predict_loop (p_iter p False True False) X p of
                       (Inl ex, p') \<Rightarrow> (Inl ex, p')
                     | (Inr Xt, p') \<Rightarrow> call_final p' m [Xt] kw))"
  shows "(\<forall>i<length (steps p). history (snd res) i = history p i @
           (if is_skipped (snd (steps p ! i)) then []
            else if i = length (steps p) - 1 then [m] else [Transform]))
       \<and> (\<exists>Xt p1. predict_loop (p_iter p False True False) X p = (Inr Xt, p1)
            \<and> res = call_final p1 m [Xt] kw
            \<and> to_keep_ind (snd res) = to_keep_ind p1
            \<and> outliers (snd res) = outliers p1)"
proof -
  from predict_like_unfold [OF assms(1)] assms(2)
  obtain Xt p1 where d: "delegate_has p m = None"
    and l: "predict_loop (p_iter p False True False) X p = (Inr Xt, p1)"
    and e: "res = call_final p1 m [Xt] kw"
    and f: "fst (call_final p1 m [Xt] kw) = Inr r"
    by auto
  from f have c: "call_final p1 m [Xt] kw = (Inr r, snd res)"
    using e by (cases "call_final p1 m [Xt] kw") auto
  from predict_like_history [OF d l c]
  have h: "\<forall>i<length (steps p). history (snd res) i = history p i @
           (if is_skipped (snd (steps p ! i)) then []
            else if i = length (steps p) - 1 then [m] else [Transform])" .
  from call_final_keeps_record [of p1 m "[Xt]" kw] e
  have k: "to_keep_ind (snd res) = to_keep_ind p1" "outliers (snd res) = outliers p1"
    by simp_all
  from h l e k show ?thesis by blast
qed

text \<open>
  C5, as amended. In a \<^verbatim>\<open>predict\<close> or \<^verbatim>\<open>predict_proba\<close> call, let the last step
  with \<^verbatim>\<open>fit_resample\<close> be reached and let its \<^verbatim>\<open>transform\<close> return three values.
  When the second (the kept-row indices) is not \<^verbatim>\<open>None\<close>, \<^verbatim>\<open>to_keep_ind\<close> and
  \<^verbatim>\<open>outliers\<close> are overwritten with the second and the third; when it is \<^verbatim>\<open>None\<close>,
  both attributes keep the values they had before that step, which are the values from
  before the call when no earlier step has \<^verbatim>\<open>fit_resample\<close>.
\<close>

theorem bookkeeping_overwritten_unless_None:
  assumes "p_iter p False True False = pre @ (idx, name, Est e) # post"
    and "FitResample \<in> set (attrs e)"
    and "\<forall>item\<in>set post. \<not> hasattr (snd (snd item)) FitResample"
    and "predict_loop pre X p = (Inr Xt, p1)"
    and "invoke e Transform [Xt] [] = (Inr (PyTuple [Xt', keep, outl]), e')"
  shows "(delegate_has p Predict = None \<longrightarrow>
            to_keep_ind (snd (predict X kw p))
              = (if keep \<noteq> PyNone then Some keep else to_keep_ind p1)
            \<and> outliers (snd (predict X kw p))
              = (if keep \<noteq> PyNone then Some outl else outliers p1))
       \<and> (delegate_has p PredictProba = None \<longrightarrow>
            to_keep_ind (snd (predict_proba X kw p))
              = (if keep \<noteq> PyNone then Some keep else to_keep_ind p1)
            \<and> outliers (snd (predict_proba X kw p))
              = (if keep \<noteq> PyNone then Some outl else outliers p1))
       \<and> ((\<forall>item\<in>set pre. \<not> hasattr (snd (snd item)) FitResample) \<longrightarrow>
            to_keep_ind p1 = to_keep_ind p \<and> outliers p1 = outliers p)"
proof -
  let ?items = "p_iter p False True False"
  note l = predict_loop_last_resampler [OF assms(1) assms(2) assms(3) assms(4) assms(5)]
  have after: "to_keep_ind (snd (case predict_loop ?items X p of
                   (Inl ex, p') \<Rightarrow> (Inl ex, p')
                 | (Inr Xt, p') \<Rightarrow> call_final p' m [Xt] kw))
                = to_keep_ind (snd (predict_loop ?items X p))
             \<and> outliers (snd (case predict_loop ?items X p of
                   (Inl ex, p') \<Rightarrow> (Inl ex, p')
                 | (Inr Xt, p') \<Rightarrow> call_final p' m [Xt] kw))
                = outliers (snd (predict_loop ?items X p))" for m
    by (cases "predict_loop ?items X p")
       (auto simp: call_final_keeps_record split: sum.splits)
  have a: "delegate_has p Predict = None \<longrightarrow>
            to_keep_ind (snd (predict X kw p))
              = (if keep \<noteq> PyNone then Some keep else to_keep_ind p1)
            \<and> outliers (snd (predict X kw p))
              = (if keep \<noteq> PyNone then Some outl else outliers p1)"
    using l after [of Predict] by (simp add: predict_def)
  have b: "delegate_has p PredictProba = None \<longrightarrow>
            to_keep_ind (snd (predict_proba X kw p))
              = (if keep \<noteq> PyNone then Some keep else to_keep_ind p1)
            \<and> outliers (snd (predict_proba X kw p))
              = (if keep \<noteq> PyNone then Some outl else outliers p1)"
    using l after [of PredictProba] by (simp add: predict_proba_def)
  have c: "(\<forall>item\<in>set pre. \<not> hasattr (snd (snd item)) FitResample) \<longrightarrow>
            to_keep_ind p1 = to_keep_ind p \<and> outliers p1 = outliers p"
    using predict_loop_keeps_record [of pre X p] assms(4) by auto
  from a b c show ?thesis by blast
qed

theorem bookkeeping_overwritten_unless_None_witness:
  "p_iter resample_pipeline False True False
     = [(0, ''scale'', Est scaler)] @ (1, ''rm'', Est remover) # []
   \<and> FitResample \<in> set (attrs remover)
   \<and> fst (predict_loop [(0, ''scale'', Est scaler)] X3 resample_pipeline)
       = Inr (PyList [PyInt 2, PyInt 4, PyInt 6])
   \<and> fst (invoke remover Transform [PyList [PyInt 2, PyInt 4, PyInt 6]] [])
       = Inr (PyTuple [PyList [PyInt 4, PyInt 6], PyList [PyInt 1, PyInt 2], PyList [PyInt 0]])
   \<and> delegate_has resample_pipeline Predict = None
   \<and> to_keep_ind resample_pipeline = None
   \<and> to_keep_ind (snd (predict X3 [] resample_pipeline)) = Some (PyList [PyInt 1, PyInt 2])
   \<and> outliers (snd (predict X3 [] resample_pipeline)) = Some (PyList [PyInt 0])
   \<and> p_iter keeper_pipeline False True False = [] @ (0, ''keep'', Est keeper) # []
   \<and> fst (invoke keeper Transform [X3] []) = Inr (PyTuple [X3, PyNone, PyList []])
   \<and> to_keep_ind (snd (predict X3 [] keeper_pipeline)) = to_keep_ind keeper_pipeline"
proof -
  obtain p1 where p1: "predict_loop [(0, ''scale'', Est scaler)] X3 resample_pipeline
      = (Inr (PyList [PyInt 2, PyInt 4, PyInt 6]), p1)"
    by (simp add: example_defs model_defs)
  obtain e' where e': "invoke remover Transform [PyList [PyInt 2, PyInt 4, PyInt 6]] []
      = (Inr (PyTuple [PyList [PyInt 4, PyInt 6], PyList [PyInt 1, PyInt 2], PyList [PyInt 0]]), e')"
    by (simp add: example_defs model_defs)
  have i: "p_iter resample_pipeline False True False
     = [(0, ''scale'', Est scaler)] @ (1, ''rm'', Est remover) # []"
    by (simp add: example_defs model_defs)
  have r: "FitResample \<in> set (attrs remover)" by (simp add: example_defs)
  have n: "\<forall>item\<in>set []. \<not> hasattr (snd (snd item)) FitResample" by simp
  have d: "delegate_has resample_pipeline Predict = None" by (simp add: example_defs model_defs)
  have t: "to_keep_ind resample_pipeline = None" by (simp add: example_defs)
  from bookkeeping_overwritten_unless_None [OF i r n p1 e', of "[]"] d
  have w1: "to_keep_ind (snd (predict X3 [] resample_pipeline)) = Some (PyList [PyInt 1, PyInt 2])"
    and w2: "outliers (snd (predict X3 [] resample_pipeline)) = Some (PyList [PyInt 0])"
    by simp_all
  obtain k' where k': "invoke keeper Transform [X3] [] = (Inr (PyTuple [X3, PyNone, PyList []]), k')"
    by (simp add: example_defs model_defs)
  have ki: "p_iter keeper_pipeline False True False = [] @ (0, ''keep'', Est keeper) # []"
    by (simp add: example_defs model_defs)
  have kr: "FitResample \<in> set (attrs keeper)" by (simp add: example_defs)
  have kp: "predict_loop [] X3 keeper_pipeline = (Inr X3, keeper_pipeline)" by simp
  have kd: "delegate_has keeper_pipeline Predict = None" by (simp add: example_defs model_defs)
  from bookkeeping_overwritten_unless_None [OF ki kr n kp k', of "[]"] kd
  have w3: "to_keep_ind (snd (predict X3 [] keeper_pipeline)) = to_keep_ind keeper_pipeline"
    by simp
  show ?thesis using i r p1 e' d t w1 w2 ki k' w3 by simp
qed

text \<open>
  C5 as the specification states it fails: the pipeline carries bookkeeping from an
  earlier call, the resampler returns \<^verbatim>\<open>None\<close> and an empty list in this call, and
  the earlier values are still there afterwards.
\<close>

theorem stale_bookkeeping_counterexample:
  "hasattr (snd (steps keeper_pipeline ! 0)) FitResample
   \<and> fst (invoke keeper Transform [X3] []) = Inr (PyTuple [X3, PyNone, PyList []])
   \<and> fst (predict X3 [] keeper_pipeline) = Inr X3
   \<and> to_keep_ind (snd (predict X3 [] keeper_pipeline)) = Some (PyList [PyInt 5])
   \<and> outliers (snd (predict X3 [] keeper_pipeline)) = Some (PyList [PyInt 6])"
  by (simp add: example_defs model_defs)

section \<open>Fit parameters\<close>







lemma dom_init_params:
  "dom (init_params ss) = {name. \<exists>t. (name, t) \<in> set ss \<and> t \<noteq> StepNone}"
proof -
  have "dom (init_params ss)
      = fst ` set (filter (\<lambda>(name, step). case step of StepNone \<Rightarrow> False | _ \<Rightarrow> True) ss)"
    by (simp add: init_params_def dom_map_of_conv_image_fst image_image case_prod_unfold)
  also have "\<dots> = {name. \<exists>t. (name, t) \<in> set ss \<and> t \<noteq> StepNone}"
    by (force split: step.splits)
  finally show ?thesis .
qed




section \<open>The loop of fitting\<close>




section \<open>The loops of the code and the loops of the specification\<close>

text \<open>
  The loops of \<^verbatim>\<open>_fit\<close>, \<^verbatim>\<open>predict\<close> and \<^verbatim>\<open>_transform\<close> run over indexed
  items that a generator yields and rewrite \<^verbatim>\<open>self.steps\<close> by index. On the items of a
  segment of the steps they compute what the loops of the specification compute on the
  entries of that segment, and they leave the pipeline with the entries of the segment
  replaced by those the specification's loop returns.
\<close>

lemma set_step_at:
  assumes "steps p = pre @ (name, t) # rest"
  shows "set_step p (length pre) name e = p\<lparr>steps := pre @ (name, Est e) # rest\<rparr>"
  using assms by (simp add: set_step_def)

lemma steps_update_same: "steps p = ss \<Longrightarrow> p\<lparr>steps := ss\<rparr> = p"
  by simp

lemma fit_loop_spec:
  assumes "steps p = pre @ ss @ post"
    and "\<forall>t\<in>set (map snd ss). is_skipped t \<or> hasattr t Transform \<or> hasattr t FitTransform
            \<or> hasattr t FitResample"
  shows "fit_loop h fps (enumerate (length pre) ss) X y ft p =
           (case spec_fit_steps h (mem_set p) fps ss X y of
              (r, ss') \<Rightarrow> (r, p\<lparr>steps := pre @ ss' @ post\<rparr>))"
  using assms
proof (induction ss arbitrary: pre X y ft p)
  case Nil
  then show ?case by simp
next
  case (Cons a ss)
  obtain name t where a: "a = (name, t)" by (cases a) auto
  have st: "steps p = pre @ (name, t) # (ss @ post)" using Cons.prems(1) a by simp
  have rest: "\<forall>t\<in>set (map snd ss). is_skipped t \<or> hasattr t Transform \<or> hasattr t FitTransform
            \<or> hasattr t FitResample" using Cons.prems(2) by simp
  have IH: "fit_loop h fps (enumerate (Suc (length pre)) ss) X' y' ft' q =
           (case spec_fit_steps h (mem_set q) fps ss X' y' of
              (r, ss') \<Rightarrow> (r, q\<lparr>steps := (pre @ [x]) @ ss' @ post\<rparr>))"
    if "steps q = (pre @ [x]) @ ss @ post" for X' y' ft' q x
    using Cons.IH [OF that rest, of X' y' ft'] by simp
  show ?case
  proof (cases t)
    case StepNone
    have "steps p = (pre @ [(name, t)]) @ ss @ post" using st by simp
    from IH [OF this, of X y ft] StepNone a show ?thesis
      by (simp add: fit_step_def split: prod.splits)
  next
    case Passthrough
    have "steps p = (pre @ [(name, t)]) @ ss @ post" using st by simp
    from IH [OF this, of X y ft] Passthrough a show ?thesis
      by (simp add: fit_step_def split: prod.splits)
  next
    case (Est e)
    let ?c = "if mem_set p then clone h e else e"
    have ac: "attrs ?c = attrs e" by (simp add: attrs_clone)
    from Cons.prems(2) a Est
    have cap: "Transform \<in> set (attrs e) \<or> FitTransform \<in> set (attrs e)
        \<or> FitResample \<in> set (attrs e)" by simp
    have upd: "set_step p (length pre) name f = p\<lparr>steps := pre @ (name, Est f) # (ss @ post)\<rparr>" for f
      using set_step_at [OF st] .
    have ms: "mem_set (p\<lparr>steps := zs\<rparr>) = mem_set p" for zs by (simp add: mem_set_def)
    show ?thesis
    proof (cases "fps name")
      case None
      with a Est cap ac st show ?thesis
        by (auto simp: fit_step_def Let_def)
    next
      case (Some kw)
      show ?thesis
      proof (cases "FitResample \<in> set (attrs e)")
        case True
        obtain r1 f where r: "p_fit_resample_one ?c X y kw = (r1, f)"
          by (cases "p_fit_resample_one ?c X y kw") auto
        show ?thesis
        proof (cases r1)
          case (Inl ex)
          with a Est True Some r ac st upd show ?thesis
            by (cases "mem_set p") (simp_all add: fit_step_def Let_def attrs_clone)
        next
          case (Inr v)
          obtain X' y' where v: "v = (X', y')" by (cases v) auto
          let ?q = "p\<lparr>steps := pre @ (name, Est f) # (ss @ post)\<rparr>"
          have "steps ?q = (pre @ [(name, Est f)]) @ ss @ post" by simp
          from IH [OF this, of X' y' "Some f"]
          have "fit_loop h fps (enumerate (Suc (length pre)) ss) X' y' (Some f) ?q =
           (case spec_fit_steps h (mem_set p) fps ss X' y' of
              (r, ss') \<Rightarrow> (r, p\<lparr>steps := (pre @ [(name, Est f)]) @ ss' @ post\<rparr>))"
            by (simp add: ms)
          with a Est True Some r Inr v ac upd show ?thesis
            by (cases "mem_set p")
               (simp_all add: fit_step_def Let_def attrs_clone split: prod.splits)
        qed
      next
        case False
        with cap have tc: "Transform \<in> set (attrs e) \<or> FitTransform \<in> set (attrs e)" by simp
        obtain r1 f where r: "fit_transform_one h ?c X y kw = (r1, f)"
          by (cases "fit_transform_one h ?c X y kw") auto
        show ?thesis
        proof (cases r1)
          case (Inl ex)
          with a Est False tc Some r ac st upd show ?thesis
            by (cases "mem_set p") (simp_all add: fit_step_def Let_def attrs_clone)
        next
          case (Inr X')
          let ?q = "p\<lparr>steps := pre @ (name, Est f) # (ss @ post)\<rparr>"
          have "steps ?q = (pre @ [(name, Est f)]) @ ss @ post" by simp
          from IH [OF this, of X' y "Some f"]
          have "fit_loop h fps (enumerate (Suc (length pre)) ss) X' y (Some f) ?q =
           (case spec_fit_steps h (mem_set p) fps ss X' y of
              (r, ss') \<Rightarrow> (r, p\<lparr>steps := (pre @ [(name, Est f)]) @ ss' @ post\<rparr>))"
            by (simp add: ms)
          with a Est False tc Some r Inr ac upd show ?thesis
            by (cases "mem_set p")
               (simp_all add: fit_step_def Let_def attrs_clone split: prod.splits)
        qed
      qed
    qed
  qed
qed

lemma unpack_length: "unpack n v = Inr vs \<Longrightarrow> length vs = n"
  by (cases v) (auto split: if_splits)

lemma unpack_three: "unpack 3 v = Inr vs \<Longrightarrow> \<exists>a b c. vs = [a, b, c]"
  by (drule unpack_length) (auto simp: eval_nat_numeral length_Suc_conv)

lemma unpack_two: "unpack 2 v = Inr vs \<Longrightarrow> \<exists>a b. vs = [a, b]"
  by (drule unpack_length) (auto simp: eval_nat_numeral length_Suc_conv)

lemma predict_loop_spec:
  assumes "steps p = pre @ ss @ post"
  shows "predict_loop (filter (\<lambda>(idx, name, t). \<not> is_skipped t) (enumerate (length pre) ss)) Xt p =
           (case spec_predict_steps ss Xt (to_keep_ind p, outliers p) of
              (r, ss', rec') \<Rightarrow>
                (r, p\<lparr>steps := pre @ ss' @ post, to_keep_ind := fst rec', outliers := snd rec'\<rparr>))"
  using assms
proof (induction ss arbitrary: pre Xt p)
  case Nil
  then show ?case by simp
next
  case (Cons a ss)
  obtain name t where a: "a = (name, t)" by (cases a) auto
  have st: "steps p = pre @ (name, t) # (ss @ post)" using Cons.prems a by simp
  have IH: "predict_loop (filter (\<lambda>(idx, name, t). \<not> is_skipped t)
                (enumerate (Suc (length pre)) ss)) Xt' q =
           (case spec_predict_steps ss Xt' (to_keep_ind q, outliers q) of
              (r, ss', rec') \<Rightarrow>
                (r, q\<lparr>steps := (pre @ [x]) @ ss' @ post, to_keep_ind := fst rec',
                      outliers := snd rec'\<rparr>))"
    if "steps q = (pre @ [x]) @ ss @ post" for Xt' q x
    using Cons.IH [OF that, of Xt'] by simp
  have skip: ?case if sk: "is_skipped t"
  proof -
    have "steps p = (pre @ [(name, t)]) @ ss @ post" using st by simp
    from IH [OF this, of Xt] sk a show ?thesis
      by (cases t) (simp_all split: prod.splits)
  qed
  show ?case
  proof (cases t)
    case StepNone
    then show ?thesis using skip by simp
  next
    case Passthrough
    then show ?thesis using skip by simp
  next
    case (Est e)
    obtain r1 e' where r: "invoke e Transform [Xt] [] = (r1, e')"
      by (cases "invoke e Transform [Xt] []") auto
    have upd: "set_step p (length pre) name f = p\<lparr>steps := pre @ (name, Est f) # (ss @ post)\<rparr>" for f
      using set_step_at [OF st] .
    let ?q = "p\<lparr>steps := pre @ (name, Est e') # (ss @ post)\<rparr>"
    have sq: "steps ?q = (pre @ [(name, Est e')]) @ ss @ post" by simp
    have sq2: "steps (?q\<lparr>to_keep_ind := k, outliers := o'\<rparr>) = (pre @ [(name, Est e')]) @ ss @ post"
      for k o' by simp
    show ?thesis
    proof (cases r1)
      case (Inl ex)
      with a Est r upd show ?thesis
        by (simp add: predict_step_def)
    next
      case (Inr v)
      show ?thesis
      proof (cases "FitResample \<in> set (attrs e)")
        case False
        from IH [OF sq, of v] a Est r Inr False upd show ?thesis
          by (simp add: predict_step_def split: prod.splits)
      next
        case True
        show ?thesis
        proof (cases "unpack 3 v")
          case (Inl ex)
          with a Est r Inr True upd show ?thesis
            by (simp add: predict_step_def)
        next
          case vs: (Inr vs)
          show ?thesis
          proof -
            from unpack_three [OF vs] have T: "\<exists>Xt' keep outl. vs = [Xt', keep, outl]" .
            from T obtain Xt' keep outl where v3: "vs = [Xt', keep, outl]" by blast
            show ?thesis
            proof (cases "keep = PyNone")
              case True
              from IH [OF sq, of Xt'] a Est r Inr \<open>FitResample \<in> set (attrs e)\<close> vs v3 True upd
              show ?thesis
                by (simp add: predict_step_def split: prod.splits)
            next
              case False
              from IH [OF sq2 [where k = "Some keep" and o' = "Some outl"], of Xt'] a Est r Inr
                \<open>FitResample \<in> set (attrs e)\<close> vs v3 False upd
              show ?thesis
                by (simp add: predict_step_def split: prod.splits)
            qed
          qed
        qed
      qed
    qed
  qed
qed

lemma transform_loop_spec:
  assumes "steps p = pre @ ss @ post"
  shows "transform_loop (filter (\<lambda>(idx, name, t). \<not> is_skipped t \<and> \<not> hasattr t FitResample)
             (enumerate (length pre) ss)) Xt y p =
           (case spec_transform_steps ss Xt y of
              (r, ss') \<Rightarrow> (r, p\<lparr>steps := pre @ ss' @ post\<rparr>))"
  using assms
proof (induction ss arbitrary: pre Xt y p)
  case Nil
  then show ?case by simp
next
  case (Cons a ss)
  obtain name t where a: "a = (name, t)" by (cases a) auto
  have st: "steps p = pre @ (name, t) # (ss @ post)" using Cons.prems a by simp
  have IH: "transform_loop (filter (\<lambda>(idx, name, t). \<not> is_skipped t \<and> \<not> hasattr t FitResample)
                (enumerate (Suc (length pre)) ss)) Xt' y' q =
           (case spec_transform_steps ss Xt' y' of
              (r, ss') \<Rightarrow> (r, q\<lparr>steps := (pre @ [x]) @ ss' @ post\<rparr>))"
    if "steps q = (pre @ [x]) @ ss @ post" for Xt' y' q x
    using Cons.IH [OF that, of Xt' y'] by simp
  have skip: ?case if sk: "is_skipped t \<or> hasattr t FitResample"
  proof -
    have "steps p = (pre @ [(name, t)]) @ ss @ post" using st by simp
    from IH [OF this, of Xt y] sk a show ?thesis
      by (cases t) (auto split: prod.splits)
  qed
  show ?case
  proof (cases "is_skipped t \<or> hasattr t FitResample")
    case True
    then show ?thesis by (rule skip)
  next
    case False
    then obtain e where Est: "t = Est e" and nr: "FitResample \<notin> set (attrs e)"
      by (cases t) auto
    obtain r1 e' where r: "invoke e Transform [Xt, y] [] = (r1, e')"
      by (cases "invoke e Transform [Xt, y] []") auto
    have upd: "set_step p (length pre) name f = p\<lparr>steps := pre @ (name, Est f) # (ss @ post)\<rparr>" for f
      using set_step_at [OF st] .
    let ?q = "p\<lparr>steps := pre @ (name, Est e') # (ss @ post)\<rparr>"
    have sq: "steps ?q = (pre @ [(name, Est e')]) @ ss @ post" by simp
    show ?thesis
    proof (cases r1)
      case (Inl ex)
      with a Est nr r upd show ?thesis
        by (simp add: transform_step_def)
    next
      case (Inr v)
      show ?thesis
      proof (cases "unpack 2 v")
        case (Inl ex)
        with a Est nr r Inr upd show ?thesis
          by (simp add: transform_step_def)
      next
        case vs: (Inr vs)
        show ?thesis
        proof -
          from unpack_two [OF vs] have "\<exists>Xt' y'. vs = [Xt', y']" .
          then obtain Xt' y' where v2: "vs = [Xt', y']" by blast
          from IH [OF sq, of Xt' y'] a Est nr r Inr vs v2 upd show ?thesis
            by (simp add: transform_step_def split: prod.splits)
        qed
      qed
    qed
  qed
qed

text \<open>
  For a whole pipeline: the generator of \<^verbatim>\<open>_fit\<close> yields the steps before the last
  one, that of \<^verbatim>\<open>predict\<close> those of them that are objects, that of
  \<^verbatim>\<open>_transform\<close> all the steps that are objects without \<^verbatim>\<open>fit_resample\<close>. After
  validation every step before the last is fit for the loop of \<^verbatim>\<open>_fit\<close>, and the
  dictionary of the last step exists when the step is not \<^verbatim>\<open>None\<close>.
\<close>

lemma p_iter_fit: "p_iter p False False False = enumerate 0 (butlast (steps p))"
  by (simp add: p_iter_def base_iter_def take_enumerate butlast_conv_take)

lemma p_iter_predict:
  "p_iter p False True False
     = filter (\<lambda>(idx, name, t). \<not> is_skipped t) (enumerate 0 (butlast (steps p)))"
  by (simp add: p_iter_def base_iter_def take_enumerate butlast_conv_take)

lemma validated_capable:
  assumes "p_validate_steps h p = None"
  shows "steps p \<noteq> []
       \<and> (\<forall>t\<in>set (map snd (butlast (steps p))). is_skipped t \<or> hasattr t Transform
              \<or> hasattr t FitTransform \<or> hasattr t FitResample)
       \<and> (is_skipped (snd (last (steps p))) \<or> hasattr (snd (last (steps p))) Fit)"
proof -
  from assms have ne: "steps p \<noteq> []" by (auto simp: p_validate_steps_def)
  with assms have ct: "check_transformers (butlast (map snd (steps p))) = None"
    and fin: "is_skipped (last (map snd (steps p))) \<or> hasattr (last (map snd (steps p))) Fit"
    by (simp_all add: p_validate_steps_def list.case_eq_if Let_def
        split: if_splits option.splits)
  from ct have "\<forall>t\<in>set (butlast (map snd (steps p))). is_skipped t \<or> hasattr t Transform
              \<or> hasattr t FitTransform \<or> hasattr t FitResample"
    unfolding check_transformers_eq by (auto split: if_splits)
  with ne fin show ?thesis by (simp add: map_butlast last_map)
qed

lemma route_params_dom:
  "route_params kw d = Inr d' \<Longrightarrow> dom d' = dom d"
proof (induction kw arbitrary: d)
  case Nil
  then show ?case by simp
next
  case (Cons a kw)
  obtain k w where a: "a = (k, w)" by (cases a) auto
  from Cons.prems a obtain s q kws where "split_dunder k = Some (s, q)" and ds: "d s = Some kws"
    and rest: "route_params kw (d(s \<mapsto> AList.update q w kws)) = Inr d'"
    by (auto split: option.splits)
  from Cons.IH [OF rest] have "dom d' = insert s (dom d)"
    by (auto simp: dom_def split: if_splits)
  moreover from ds have "s \<in> dom d" by (rule domI)
  ultimately show ?case by (simp add: insert_absorb)
qed

lemma final_params_found:
  assumes "route_params kw (init_params (steps p)) = Inr fps"
    and "steps p \<noteq> []" and "\<not> is_skipped (snd (last (steps p)))"
  shows "\<exists>kwf. fps (fst (last (steps p))) = Some kwf"
proof -
  from assms(2) have "last (steps p) \<in> set (steps p)" by simp
  then have "(fst (last (steps p)), snd (last (steps p))) \<in> set (steps p)" by simp
  moreover from assms(3) have "snd (last (steps p)) \<noteq> StepNone" by auto
  ultimately have "fst (last (steps p)) \<in> dom (init_params (steps p))"
    unfolding dom_init_params by blast
  with route_params_dom [OF assms(1)] show ?thesis by auto
qed

lemma p_fit_spec:
  assumes "p_validate_steps h p = None"
    and "route_params kw (init_params (steps p)) = Inr fps"
  shows "p_fit h X y kw p =
           (case spec_fit_steps h (mem_set p) fps (butlast (steps p)) X y of
              (Inl ex, ss') \<Rightarrow> (Inl ex, p\<lparr>steps := ss' @ [last (steps p)]\<rparr>)
            | (Inr (X', y'), ss') \<Rightarrow>
                (Inr (X', y',
                      if is_skipped (snd (last (steps p))) then []
                      else the (fps (fst (last (steps p))))),
                 p\<lparr>steps := ss' @ [last (steps p)]\<rparr>))"
proof -
  from validated_capable [OF assms(1)] have ne: "steps p \<noteq> []"
    and cap: "\<forall>t\<in>set (map snd (butlast (steps p))). is_skipped t \<or> hasattr t Transform
              \<or> hasattr t FitTransform \<or> hasattr t FitResample"
    by simp_all
  have st: "steps p = [] @ butlast (steps p) @ [last (steps p)]" using ne by simp
  from fit_loop_spec [OF st cap, of h fps X y None]
  have loop: "fit_loop h fps (p_iter p False False False) X y None p =
           (case spec_fit_steps h (mem_set p) fps (butlast (steps p)) X y of
              (r, ss') \<Rightarrow> (r, p\<lparr>steps := ss' @ [last (steps p)]\<rparr>))"
    by (simp add: p_iter_fit)
  obtain r ss' where sp: "spec_fit_steps h (mem_set p) fps (butlast (steps p)) X y = (r, ss')"
    by (cases "spec_fit_steps h (mem_set p) fps (butlast (steps p)) X y") auto
  let ?p' = "p\<lparr>steps := ss' @ [last (steps p)]\<rparr>"
  have fe: "final_estimator ?p'
      = Inr (case snd (last (steps p)) of StepNone \<Rightarrow> Passthrough | s \<Rightarrow> s)"
    by (simp add: final_estimator_def list.case_eq_if)
  show ?thesis
  proof (cases r)
    case (Inl ex)
    with assms loop sp show ?thesis by (simp add: p_fit_def)
  next
    case (Inr v)
    obtain X' y' where v: "v = (X', y')" by (cases v) auto
    show ?thesis
    proof (cases "is_skipped (snd (last (steps p)))")
      case True
      with assms loop sp Inr v fe show ?thesis
        by (cases "snd (last (steps p))") (simp_all add: p_fit_def)
    next
      case False
      from final_params_found [OF assms(2) ne False]
      obtain kwf where "fps (fst (last (steps p))) = Some kwf" by blast
      with False assms loop sp Inr v fe show ?thesis
        by (cases "snd (last (steps p))") (simp_all add: p_fit_def)
    qed
  qed
qed

lemma predict_loop_spec_pipeline:
  assumes "steps p \<noteq> []"
  shows "predict_loop (p_iter p False True False) X p =
           (case spec_predict_steps (butlast (steps p)) X (to_keep_ind p, outliers p) of
              (r, ss', rec') \<Rightarrow>
                (r, p\<lparr>steps := ss' @ [last (steps p)], to_keep_ind := fst rec',
                      outliers := snd rec'\<rparr>))"
proof -
  have st: "steps p = [] @ butlast (steps p) @ [last (steps p)]" using assms by simp
  from predict_loop_spec [OF st, of X] show ?thesis by (simp add: p_iter_predict)
qed

lemma p_transform_spec:
  "p_transform X y p =
     (case spec_transform_steps (steps p) X y of
        (Inl ex, ss') \<Rightarrow> (Inl ex, p\<lparr>steps := ss'\<rparr>)
      | (Inr (Xt, y'), ss') \<Rightarrow> (Inr (PyTuple [Xt, y']), p\<lparr>steps := ss'\<rparr>))"
proof -
  have st: "steps p = [] @ steps p @ []" by simp
  from transform_loop_spec [OF st, of X y]
  have "transform_loop (p_iter p True True True) X y p =
           (case spec_transform_steps (steps p) X y of (r, ss') \<Rightarrow> (r, p\<lparr>steps := ss'\<rparr>))"
    by (simp add: p_iter_all)
  then show ?thesis
    by (simp add: p_transform_def split: prod.splits sum.splits)
qed

section \<open>What transformation does\<close>

text \<open>
  In a call of the specification's loop that returns, \<^verbatim>\<open>transform\<close> has been called
  once on every step that is an object without \<^verbatim>\<open>fit_resample\<close>, and no method on
  any other step.
\<close>

lemma spec_transform_history:
  assumes "spec_transform_steps ss Xt y = (Inr r, ss')"
  shows "map (\<lambda>x. case snd x of Est e \<Rightarrow> calls e | _ \<Rightarrow> []) ss'
       = map (\<lambda>x. (case snd x of Est e \<Rightarrow> calls e | _ \<Rightarrow> [])
                  @ (if is_skipped (snd x) \<or> hasattr (snd x) FitResample then []
                     else [Transform])) ss"
  using assms
proof (induction ss arbitrary: Xt y ss')
  case Nil
  then show ?case by simp
next
  case (Cons a ss)
  obtain name t where a: "a = (name, t)" by (cases a) auto
  have skip: ?case if sk: "is_skipped t \<or> hasattr t FitResample"
  proof -
    obtain r1 rest' where s: "spec_transform_steps ss Xt y = (r1, rest')"
      by (cases "spec_transform_steps ss Xt y") auto
    with Cons.prems a sk have "r1 = Inr r" and ss': "ss' = (name, t) # rest'"
      by (cases t; auto)+
    with Cons.IH [of Xt y rest'] s sk show ?thesis
      using a by (cases t) auto
  qed
  show ?case
  proof (cases "is_skipped t \<or> hasattr t FitResample")
    case True
    then show ?thesis by (rule skip)
  next
    case False
    then obtain e where Est: "t = Est e" and nr: "FitResample \<notin> set (attrs e)"
      by (cases t) auto
    obtain r1 e' where i: "invoke e Transform [Xt, y] [] = (r1, e')"
      by (cases "invoke e Transform [Xt, y] []") auto
    with Cons.prems a Est nr obtain v where r1: "r1 = Inr v" by (cases r1) auto
    with Cons.prems a Est nr i obtain vs where u: "unpack 2 v = Inr vs"
      by (cases "unpack 2 v") auto
    from unpack_two [OF u] obtain Xt' y' where vs: "vs = [Xt', y']" by blast
    obtain r2 rest' where s: "spec_transform_steps ss Xt' y' = (r2, rest')"
      by (cases "spec_transform_steps ss Xt' y'") auto
    with Cons.prems a Est nr i r1 u vs have "r2 = Inr r" and ss': "ss' = (name, Est e') # rest'"
      by auto
    from invoke_Inr [OF i [unfolded r1]] have "calls e' = calls e @ [Transform]" by simp
    with Cons.IH [of Xt' y' rest'] s \<open>r2 = Inr r\<close> ss' a Est nr show ?thesis by simp
  qed
qed

text \<open>
  C10. \<^verbatim>\<open>_transform\<close> is the loop of transformation of the specification over all the
  steps of the pipeline, in list order: the steps that expose \<^verbatim>\<open>fit_resample\<close> are
  passed over, like the steps that are \<^verbatim>\<open>None\<close> or \<^verbatim>\<open>'passthrough'\<close>, and every
  other step has \<^verbatim>\<open>transform\<close> called with the features and the labels and returns
  both, which go to the next step; the result is the pair the last of them returns.
  \<^verbatim>\<open>transform\<close> is this function whenever the attribute can be read. In a call that
  returns, \<^verbatim>\<open>transform\<close> has been called exactly once on each of the remaining steps and
  no method on a step with \<^verbatim>\<open>fit_resample\<close>. The generator yields exactly the remaining
  steps, the result is the one of the pipeline with \<^verbatim>\<open>'passthrough'\<close> in the place of
  every step with \<^verbatim>\<open>fit_resample\<close>, and those steps are left as they were.
\<close>

theorem transform_skips_resamplers:
  "p_transform X y p =
     (case spec_transform_steps (steps p) X y of
        (Inl ex, ss') \<Rightarrow> (Inl ex, p\<lparr>steps := ss'\<rparr>)
      | (Inr (Xt, y'), ss') \<Rightarrow> (Inr (PyTuple [Xt, y']), p\<lparr>steps := ss'\<rparr>))
   \<and> (transform_property p = None \<longrightarrow> transform X y p = p_transform X y p)
   \<and> (fst (p_transform X y p) = Inr v \<longrightarrow>
        (\<forall>i<length (steps p). history (snd (p_transform X y p)) i = history p i @
           (if is_skipped (snd (steps p ! i)) \<or> hasattr (snd (steps p ! i)) FitResample
            then [] else [Transform])))
   \<and> p_iter p True True True
       = filter (\<lambda>(idx, name, t). \<not> is_skipped t \<and> \<not> hasattr t FitResample)
           (enumerate 0 (steps p))
   \<and> fst (p_transform X y p) = fst (p_transform X y (p\<lparr>steps := without_resamplers (steps p)\<rparr>))
   \<and> (\<forall>i. hasattr (snd (steps p ! i)) FitResample
          \<longrightarrow> steps (snd (p_transform X y p)) ! i = steps p ! i)"
proof (intro conjI allI impI)
  show "p_transform X y p =
     (case spec_transform_steps (steps p) X y of
        (Inl ex, ss') \<Rightarrow> (Inl ex, p\<lparr>steps := ss'\<rparr>)
      | (Inr (Xt, y'), ss') \<Rightarrow> (Inr (PyTuple [Xt, y']), p\<lparr>steps := ss'\<rparr>))"
    by (rule p_transform_spec)
next
  assume "transform_property p = None"
  then show "transform X y p = p_transform X y p" by (simp add: transform_def)
next
  fix i
  assume ok: "fst (p_transform X y p) = Inr v" and i: "i < length (steps p)"
  obtain r ss' where sp: "spec_transform_steps (steps p) X y = (r, ss')"
    by (cases "spec_transform_steps (steps p) X y") auto
  with ok obtain w where r: "r = Inr w"
    by (cases r) (auto simp: p_transform_spec)
  from sp r have p': "snd (p_transform X y p) = p\<lparr>steps := ss'\<rparr>"
    by (cases w) (simp add: p_transform_spec)
  note h = spec_transform_history [OF sp [unfolded r]]
  from h have len: "length ss' = length (steps p)" by (rule map_eq_imp_length_eq)
  from arg_cong [OF h, of "\<lambda>xs. xs ! i"] i len
  show "history (snd (p_transform X y p)) i = history p i @
           (if is_skipped (snd (steps p ! i)) \<or> hasattr (snd (steps p ! i)) FitResample
            then [] else [Transform])"
    by (simp add: history_def p')
next
  show "p_iter p True True True
       = filter (\<lambda>(idx, name, t). \<not> is_skipped t \<and> \<not> hasattr t FitResample)
           (enumerate 0 (steps p))"
    by (rule p_iter_all)
next
  have "p_iter (p\<lparr>steps := without_resamplers (steps p)\<rparr>) True True True = p_iter p True True True"
    by (simp add: p_iter_all filter_enumerate_without_resamplers)
  then show "fst (p_transform X y p)
      = fst (p_transform X y (p\<lparr>steps := without_resamplers (steps p)\<rparr>))"
    using transform_loop_fst [of "p_iter p True True True" X y p
        "p\<lparr>steps := without_resamplers (steps p)\<rparr>"]
    by (simp add: p_transform_fst)
next
  fix i
  assume rs: "hasattr (snd (steps p ! i)) FitResample"
  obtain r p' where l: "transform_loop (p_iter p True True True) X y p = (r, p')"
    by (cases "transform_loop (p_iter p True True True) X y p") auto
  have "i \<notin> fst ` set (p_iter p True True True)"
  proof
    assume "i \<in> fst ` set (p_iter p True True True)"
    then obtain n t where m: "(i, n, t) \<in> set (p_iter p True True True)" by force
    then have "\<not> hasattr t FitResample" by (simp add: p_iter_def)
    moreover from m have "(i, n, t) \<in> set (base_iter (steps p) True True)"
      by (simp add: p_iter_def)
    from base_iter_mem [OF this] have "steps p ! i = (n, t)" by simp
    ultimately show False using rs by simp
  qed
  from transform_loop_untouched [OF l this] have "steps p' ! i = steps p ! i" .
  moreover have "snd (p_transform X y p) = p'"
    using l by (simp add: p_transform_def split: prod.splits sum.splits)
  ultimately show "steps (snd (p_transform X y p)) ! i = steps p ! i" by simp
qed

theorem transform_skips_resamplers_witness:
  "transform_property two_scaler_pipeline = None
   \<and> hasattr (snd (steps two_scaler_pipeline ! 1)) FitResample
   \<and> fst (transform X3 y3 two_scaler_pipeline)
       = Inr (PyTuple [PyList [PyInt 4, PyInt 8, PyInt 12], y3])
   \<and> map (history two_scaler_pipeline) [0, 1, 2] = [[], [], []]
   \<and> map (history (snd (p_transform X3 y3 two_scaler_pipeline))) [0, 1, 2]
       = [[Transform], [], [Transform]]
   \<and> steps (snd (p_transform X3 y3 two_scaler_pipeline)) ! 1 = (''rm'', Est remover)"
proof -
  note t = transform_skips_resamplers [of X3 y3 two_scaler_pipeline
      "PyTuple [PyList [PyInt 4, PyInt 8, PyInt 12], y3]"]
  have a: "transform_property two_scaler_pipeline = None"
    by (simp add: example_defs model_defs)
  have b: "hasattr (snd (steps two_scaler_pipeline ! 1)) FitResample"
    by (simp add: example_defs)
  have sp: "spec_transform_steps (steps two_scaler_pipeline) X3 y3
      = (Inr (PyList [PyInt 4, PyInt 8, PyInt 12], y3),
         [(''scale'', Est (pair_scaler\<lparr>calls := [Transform]\<rparr>)), (''rm'', Est remover),
          (''again'', Est (pair_scaler\<lparr>calls := [Transform]\<rparr>))])"
    by (simp add: example_defs model_defs)
  from t [THEN conjunct1] sp
  have c0: "p_transform X3 y3 two_scaler_pipeline
      = (Inr (PyTuple [PyList [PyInt 4, PyInt 8, PyInt 12], y3]),
         two_scaler_pipeline\<lparr>steps :=
           [(''scale'', Est (pair_scaler\<lparr>calls := [Transform]\<rparr>)), (''rm'', Est remover),
            (''again'', Est (pair_scaler\<lparr>calls := [Transform]\<rparr>))]\<rparr>)"
    by simp
  from t [THEN conjunct2, THEN conjunct1, THEN mp, OF a] c0
  have c: "fst (transform X3 y3 two_scaler_pipeline)
       = Inr (PyTuple [PyList [PyInt 4, PyInt 8, PyInt 12], y3])"
    by simp
  have d: "map (history two_scaler_pipeline) [0, 1, 2] = [[], [], []]"
    by (simp add: history_def example_defs)
  have len: "length (steps two_scaler_pipeline) = 3" by (simp add: example_defs)
  have ok: "fst (p_transform X3 y3 two_scaler_pipeline)
      = Inr (PyTuple [PyList [PyInt 4, PyInt 8, PyInt 12], y3])" using c0 by simp
  note h = t [THEN conjunct2, THEN conjunct2, THEN conjunct1, THEN mp, OF ok, unfolded len]
  have sk: "\<not> (is_skipped (snd (steps two_scaler_pipeline ! 0))
              \<or> hasattr (snd (steps two_scaler_pipeline ! 0)) FitResample)"
    "is_skipped (snd (steps two_scaler_pipeline ! 1))
       \<or> hasattr (snd (steps two_scaler_pipeline ! 1)) FitResample"
    "\<not> (is_skipped (snd (steps two_scaler_pipeline ! 2))
              \<or> hasattr (snd (steps two_scaler_pipeline ! 2)) FitResample)"
    by (simp_all add: example_defs)
  have e: "map (history (snd (p_transform X3 y3 two_scaler_pipeline))) [0, 1, 2]
       = [[Transform], [], [Transform]]"
    using h d sk by simp
  have r1: "steps two_scaler_pipeline ! 1 = (''rm'', Est remover)" by (simp add: example_defs)
  from t [THEN conjunct2, THEN conjunct2, THEN conjunct2, THEN conjunct2, THEN conjunct2] b r1
  have f: "steps (snd (p_transform X3 y3 two_scaler_pipeline)) ! 1 = (''rm'', Est remover)"
    by auto
  show ?thesis
    by (intro conjI) (rule a b c d e f)+
qed

section \<open>What prediction does\<close>

text \<open>
  A method call appends its name to the history of the object and changes no other
  history; so the loop of prediction adds nothing but \<^verbatim>\<open>transform\<close> to the histories,
  and the call of the final step nothing but the method called.
\<close>

lemma invoke_calls:
  assumes "invoke e m args kw = (r, e')"
  shows "\<exists>hs. calls e' = calls e @ hs \<and> set hs \<subseteq> {m}"
proof (cases "m \<in> set (attrs e)")
  case True
  with assms have "calls e' = calls e @ [m]"
    by (auto simp: invoke_def split: prod.splits)
  then show ?thesis by auto
next
  case False
  with assms have "e' = e" by (simp add: invoke_def)
  then show ?thesis by auto
qed

lemma spec_predict_steps_calls:
  assumes "spec_predict_steps ss Xt rec = (r, ss', rec')"
  shows "list_all2 (\<lambda>x' x. \<exists>hs. (case snd x' of Est e \<Rightarrow> calls e | _ \<Rightarrow> [])
                              = (case snd x of Est e \<Rightarrow> calls e | _ \<Rightarrow> []) @ hs
                            \<and> set hs \<subseteq> {Transform}) ss' ss"
  using assms
proof (induction ss arbitrary: Xt rec r ss' rec')
  case Nil
  then show ?case by simp
next
  case (Cons a ss)
  let ?R = "\<lambda>x' x. \<exists>hs. (case snd x' of Est e \<Rightarrow> calls e | _ \<Rightarrow> [])
                              = (case snd x of Est e \<Rightarrow> calls e | _ \<Rightarrow> []) @ hs
                            \<and> set hs \<subseteq> {Transform}"
  obtain name t where a: "a = (name, t)" by (cases a) auto
  have refl: "list_all2 ?R xs xs" for xs
    by (rule list_all2_refl) auto
  have rec_case: "list_all2 ?R ((name, t') # rest') (a # ss)"
    if "spec_predict_steps ss Xt' rc = (r2, rest', rc')" and "?R (name, t') (name, t)"
    for Xt' rc r2 rest' rc' t'
    using Cons.IH [OF that(1)] that(2) a by simp
  have stop_case: "list_all2 ?R ((name, t') # ss) (a # ss)" if "?R (name, t') (name, t)" for t'
    using refl [of ss] that a by simp
  show ?case
  proof (cases t)
    case StepNone
    obtain r2 rest' rc' where s: "spec_predict_steps ss Xt rec = (r2, rest', rc')"
      by (cases "spec_predict_steps ss Xt rec") auto
    with Cons.prems a StepNone have "ss' = (name, t) # rest'" by simp
    with rec_case [OF s, of t] show ?thesis by simp
  next
    case Passthrough
    obtain r2 rest' rc' where s: "spec_predict_steps ss Xt rec = (r2, rest', rc')"
      by (cases "spec_predict_steps ss Xt rec") auto
    with Cons.prems a Passthrough have "ss' = (name, t) # rest'" by simp
    with rec_case [OF s, of t] show ?thesis by simp
  next
    case (Est e)
    obtain r1 e' where i: "invoke e Transform [Xt] [] = (r1, e')"
      by (cases "invoke e Transform [Xt] []") auto
    from invoke_calls [OF i] Est have R: "?R (name, Est e') (name, t)" by simp
    note rc = rec_case [OF _ R]
    show ?thesis
      using Cons.prems a Est i stop_case [OF R]
      by (auto split: sum.splits if_splits list.splits prod.splits intro: Cons.IH)
  qed
qed

lemma delegate_has_nonempty: "delegate_has p m = None \<Longrightarrow> steps p \<noteq> []"
  by (auto simp: delegate_has_def final_estimator_def split: list.splits)

lemma predict_like_spec:
  "(case delegate_has p m of
      Some ex \<Rightarrow> (Inl ex, p)
    | None \<Rightarrow>
        (case predict_loop (p_iter p False True False) X p of
           (Inl ex, p') \<Rightarrow> (Inl ex, p')
         | (Inr Xt, p') \<Rightarrow> call_final p' m [Xt] kw))
   = (case delegate_has p m of
        Some ex \<Rightarrow> (Inl ex, p)
      | None \<Rightarrow>
          (case spec_predict_steps (butlast (steps p)) X (to_keep_ind p, outliers p) of
             (Inl ex, ss', rec') \<Rightarrow>
               (Inl ex, p\<lparr>steps := ss' @ [last (steps p)], to_keep_ind := fst rec',
                          outliers := snd rec'\<rparr>)
           | (Inr Xt, ss', rec') \<Rightarrow>
               call_final (p\<lparr>steps := ss' @ [last (steps p)], to_keep_ind := fst rec',
                             outliers := snd rec'\<rparr>) m [Xt] kw))"
proof (cases "delegate_has p m")
  case (Some ex)
  then show ?thesis by simp
next
  case None
  from predict_loop_spec_pipeline [OF delegate_has_nonempty [OF None], of X] None
  show ?thesis
    by (simp split: prod.splits sum.splits)
qed

lemma call_final_calls:
  assumes "steps q \<noteq> []"
  shows "steps (snd (call_final q m args kw)) = steps q
       \<or> (\<exists>e e' hs. snd (last (steps q)) = Est e
             \<and> steps (snd (call_final q m args kw))
                 = (steps q)[length (steps q) - 1 := (fst (last (steps q)), Est e')]
             \<and> calls e' = calls e @ hs \<and> set hs \<subseteq> {m})"
proof (cases "snd (last (steps q))")
  case (Est e)
  obtain r e' where i: "invoke e m args kw = (r, e')" by (cases "invoke e m args kw") auto
  from invoke_calls [OF i] obtain hs where "calls e' = calls e @ hs" "set hs \<subseteq> {m}" by blast
  with Est i assms show ?thesis
    by (auto simp: call_final_def set_step_def list.case_eq_if)
next
  case StepNone
  then show ?thesis using assms by (simp add: call_final_def list.case_eq_if)
next
  case Passthrough
  then show ?thesis using assms by (simp add: call_final_def list.case_eq_if)
qed

lemma predict_like_no_refit:
  assumes "res = (case delegate_has p m of
                    Some ex \<Rightarrow> (Inl ex, p)
                  | None \<Rightarrow>
                      (case predict_loop (p_iter p False True False) X p of
                         (Inl ex, p') \<Rightarrow> (Inl ex, p')
                       | (Inr Xt, p') \<Rightarrow> call_final p' m [Xt] kw))"
    and "i < length (steps p)"
  shows "\<exists>hs. history (snd res) i = history p i @ hs \<and> set hs \<subseteq> {Transform, m}"
proof (cases "delegate_has p m")
  case (Some ex)
  with assms(1) have "snd res = p" by simp
  then show ?thesis by simp
next
  case None
  from delegate_has_nonempty [OF None] have ne: "steps p \<noteq> []" .
  let ?R = "\<lambda>x' x. \<exists>hs. (case snd x' of Est e \<Rightarrow> calls e | _ \<Rightarrow> [])
                              = (case snd x of Est e \<Rightarrow> calls e | _ \<Rightarrow> []) @ hs
                            \<and> set hs \<subseteq> {Transform}"
  obtain r ss' rec' where sp: "spec_predict_steps (butlast (steps p)) X (to_keep_ind p, outliers p)
      = (r, ss', rec')"
    by (cases "spec_predict_steps (butlast (steps p)) X (to_keep_ind p, outliers p)") auto
  from spec_predict_steps_calls [OF sp] have la: "list_all2 ?R ss' (butlast (steps p))" .
  then have len: "length ss' = length (steps p) - 1" by (simp add: list_all2_lengthD)
  let ?P = "p\<lparr>steps := ss' @ [last (steps p)], to_keep_ind := fst rec', outliers := snd rec'\<rparr>"
  have lenP: "length (steps ?P) = length (steps p)" using len ne by simp
  have lastP: "last (steps ?P) = last (steps p)" by simp
  have P: "\<exists>hs. history ?P i = history p i @ hs \<and> set hs \<subseteq> {Transform}"
  proof (cases "i < length (steps p) - 1")
    case True
    then have il: "i < length ss'" using len by simp
    have "?R (ss' ! i) (butlast (steps p) ! i)"
      by (rule list_all2_nthD [OF la il])
    moreover have "butlast (steps p) ! i = steps p ! i"
      using True by (simp add: nth_butlast)
    ultimately show ?thesis using il
      by (simp add: history_def nth_append)
  next
    case False
    with assms(2) have "i = length (steps p) - 1" by simp
    with len ne show ?thesis
      by (simp add: history_def nth_append last_conv_nth)
  qed
  have res: "res = (case r of Inl ex \<Rightarrow> (Inl ex, ?P) | Inr Xt \<Rightarrow> call_final ?P m [Xt] kw)"
    using assms(1) None sp predict_like_spec [where p = p and m = m and X = X and kw = kw]
    by (simp split: sum.splits)
  show ?thesis
  proof (cases r)
    case (Inl ex)
    with res have "snd res = ?P" by simp
    with P show ?thesis by auto
  next
    case (Inr Xt)
    with res have sr: "snd res = snd (call_final ?P m [Xt] kw)" by simp
    have neP: "steps ?P \<noteq> []" by simp
    from call_final_calls [OF neP, of m "[Xt]" kw]
    show ?thesis
    proof
      assume "steps (snd (call_final ?P m [Xt] kw)) = steps ?P"
      with sr have "history (snd res) i = history ?P i" by (simp add: history_def)
      with P show ?thesis by auto
    next
      assume "\<exists>e e' hs. snd (last (steps ?P)) = Est e
             \<and> steps (snd (call_final ?P m [Xt] kw))
                 = (steps ?P)[length (steps ?P) - 1 := (fst (last (steps ?P)), Est e')]
             \<and> calls e' = calls e @ hs \<and> set hs \<subseteq> {m}"
      then obtain e e' hs where le: "snd (last (steps ?P)) = Est e"
        and st: "steps (snd (call_final ?P m [Xt] kw))
                 = (steps ?P)[length (steps ?P) - 1 := (fst (last (steps ?P)), Est e')]"
        and c: "calls e' = calls e @ hs" and hs: "set hs \<subseteq> {m}" by blast
      show ?thesis
      proof (cases "i = length (steps p) - 1")
        case True
        have "history (snd res) i = calls e'"
          using sr st True len ne by (simp add: history_def nth_append)
        moreover have "history p i = calls e"
          using le True ne by (simp add: history_def last_conv_nth)
        ultimately show ?thesis using c hs by auto
      next
        case False
        with sr st len ne assms(2) have "history (snd res) i = history ?P i"
          by (simp add: history_def nth_append)
        with P show ?thesis by auto
      qed
    qed
  qed
qed

text \<open>
  C4, as amended. Every \<^verbatim>\<open>predict\<close> (\<^verbatim>\<open>predict_proba\<close>) call, when the method is
  exposed, is the loop of prediction of the specification over the steps before the last
  one, followed by \<^verbatim>\<open>predict\<close> (\<^verbatim>\<open>predict_proba\<close>) of the final step on the features
  the loop ends with: in list order, every step that is an object has \<^verbatim>\<open>transform\<close>
  called on the features, and a step with \<^verbatim>\<open>fit_resample\<close> whose \<^verbatim>\<open>transform\<close>
  returns kept-row indices other than \<^verbatim>\<open>None\<close> has these and the outlier indices
  recorded in \<^verbatim>\<open>to_keep_ind\<close> and \<^verbatim>\<open>outliers\<close>. The call of the final step leaves the
  two attributes as they are, so they have their final values before it. No step is
  refitted: in every call, whether it returns or raises, the only methods called are
  \<^verbatim>\<open>transform\<close> and \<^verbatim>\<open>predict\<close> (\<^verbatim>\<open>predict_proba\<close>); in a call that returns,
  \<^verbatim>\<open>transform\<close> has been called exactly once on each step before the last that is an
  object, and \<^verbatim>\<open>predict\<close> (\<^verbatim>\<open>predict_proba\<close>) once on the last.
\<close>

theorem predict_calls_and_records:
  "predict X kw p =
     (case delegate_has p Predict of
        Some ex \<Rightarrow> (Inl ex, p)
      | None \<Rightarrow>
          (case spec_predict_steps (butlast (steps p)) X (to_keep_ind p, outliers p) of
             (Inl ex, ss', rec') \<Rightarrow>
               (Inl ex, p\<lparr>steps := ss' @ [last (steps p)], to_keep_ind := fst rec',
                          outliers := snd rec'\<rparr>)
           | (Inr Xt, ss', rec') \<Rightarrow>
               call_final (p\<lparr>steps := ss' @ [last (steps p)], to_keep_ind := fst rec',
                             outliers := snd rec'\<rparr>) Predict [Xt] kw))
   \<and> predict_proba X kw p =
     (case delegate_has p PredictProba of
        Some ex \<Rightarrow> (Inl ex, p)
      | None \<Rightarrow>
          (case spec_predict_steps (butlast (steps p)) X (to_keep_ind p, outliers p) of
             (Inl ex, ss', rec') \<Rightarrow>
               (Inl ex, p\<lparr>steps := ss' @ [last (steps p)], to_keep_ind := fst rec',
                          outliers := snd rec'\<rparr>)
           | (Inr Xt, ss', rec') \<Rightarrow>
               call_final (p\<lparr>steps := ss' @ [last (steps p)], to_keep_ind := fst rec',
                             outliers := snd rec'\<rparr>) PredictProba [Xt] kw))
   \<and> to_keep_ind (snd (call_final q m args kw')) = to_keep_ind q
   \<and> outliers (snd (call_final q m args kw')) = outliers q
   \<and> (\<forall>i<length (steps p). \<exists>hs. history (snd (predict X kw p)) i = history p i @ hs
          \<and> set hs \<subseteq> {Transform, Predict})
   \<and> (\<forall>i<length (steps p). \<exists>hs. history (snd (predict_proba X kw p)) i = history p i @ hs
          \<and> set hs \<subseteq> {Transform, PredictProba})
   \<and> (fst (predict X kw p) = Inr r \<longrightarrow>
        (\<forall>i<length (steps p). history (snd (predict X kw p)) i = history p i @
           (if is_skipped (snd (steps p ! i)) then []
            else if i = length (steps p) - 1 then [Predict] else [Transform])))
   \<and> (fst (predict_proba X kw p) = Inr r \<longrightarrow>
        (\<forall>i<length (steps p). history (snd (predict_proba X kw p)) i = history p i @
           (if is_skipped (snd (steps p ! i)) then []
            else if i = length (steps p) - 1 then [PredictProba] else [Transform])))"
proof (intro conjI impI)
  show "predict X kw p =
     (case delegate_has p Predict of
        Some ex \<Rightarrow> (Inl ex, p)
      | None \<Rightarrow>
          (case spec_predict_steps (butlast (steps p)) X (to_keep_ind p, outliers p) of
             (Inl ex, ss', rec') \<Rightarrow>
               (Inl ex, p\<lparr>steps := ss' @ [last (steps p)], to_keep_ind := fst rec',
                          outliers := snd rec'\<rparr>)
           | (Inr Xt, ss', rec') \<Rightarrow>
               call_final (p\<lparr>steps := ss' @ [last (steps p)], to_keep_ind := fst rec',
                             outliers := snd rec'\<rparr>) Predict [Xt] kw))"
    unfolding predict_def by (rule predict_like_spec)
  show "predict_proba X kw p =
     (case delegate_has p PredictProba of
        Some ex \<Rightarrow> (Inl ex, p)
      | None \<Rightarrow>
          (case spec_predict_steps (butlast (steps p)) X (to_keep_ind p, outliers p) of
             (Inl ex, ss', rec') \<Rightarrow>
               (Inl ex, p\<lparr>steps := ss' @ [last (steps p)], to_keep_ind := fst rec',
                          outliers := snd rec'\<rparr>)
           | (Inr Xt, ss', rec') \<Rightarrow>
               call_final (p\<lparr>steps := ss' @ [last (steps p)], to_keep_ind := fst rec',
                             outliers := snd rec'\<rparr>) PredictProba [Xt] kw))"
    unfolding predict_proba_def by (rule predict_like_spec)
  show "to_keep_ind (snd (call_final q m args kw')) = to_keep_ind q"
    and "outliers (snd (call_final q m args kw')) = outliers q"
    using call_final_keeps_record [of q m args kw'] by simp_all
  show "\<forall>i<length (steps p). \<exists>hs. history (snd (predict X kw p)) i = history p i @ hs
          \<and> set hs \<subseteq> {Transform, Predict}"
    using predict_like_no_refit [OF predict_def] by blast
  show "\<forall>i<length (steps p). \<exists>hs. history (snd (predict_proba X kw p)) i = history p i @ hs
          \<and> set hs \<subseteq> {Transform, PredictProba}"
    using predict_like_no_refit [OF predict_proba_def] by blast
next
  assume a: "fst (predict X kw p) = Inr r"
  from predict_like_summary [OF a [unfolded predict_def] predict_def]
  show "\<forall>i<length (steps p). history (snd (predict X kw p)) i = history p i @
           (if is_skipped (snd (steps p ! i)) then []
            else if i = length (steps p) - 1 then [Predict] else [Transform])"
    by blast
next
  assume a: "fst (predict_proba X kw p) = Inr r"
  from predict_like_summary [OF a [unfolded predict_proba_def] predict_proba_def]
  show "\<forall>i<length (steps p). history (snd (predict_proba X kw p)) i = history p i @
           (if is_skipped (snd (steps p ! i)) then []
            else if i = length (steps p) - 1 then [PredictProba] else [Transform])"
    by blast
qed

theorem predict_calls_and_records_witness:
  "delegate_has resample_pipeline Predict = None
   \<and> to_keep_ind resample_pipeline = None \<and> outliers resample_pipeline = None
   \<and> spec_predict_steps (butlast (steps resample_pipeline)) X3 (None, None)
       = (Inr (PyList [PyInt 4, PyInt 6]),
          [(''scale'', Est (scaler\<lparr>calls := [Transform]\<rparr>)),
           (''rm'', Est (remover\<lparr>calls := [Transform]\<rparr>))],
          (Some (PyList [PyInt 1, PyInt 2]), Some (PyList [PyInt 0])))
   \<and> fst (predict X3 [] resample_pipeline) = Inr (PyList [PyInt 4, PyInt 6])
   \<and> to_keep_ind (snd (predict X3 [] resample_pipeline)) = Some (PyList [PyInt 1, PyInt 2])
   \<and> outliers (snd (predict X3 [] resample_pipeline)) = Some (PyList [PyInt 0])
   \<and> map (history resample_pipeline) [0, 1, 2] = [[], [], []]
   \<and> map (history (snd (predict X3 [] resample_pipeline))) [0, 1, 2]
       = [[Transform], [Transform], [Predict]]"
proof -
  note t = predict_calls_and_records [where X = X3 and kw = "[]" and p = resample_pipeline
      and r = "PyList [PyInt 4, PyInt 6]"]
  have d: "delegate_has resample_pipeline Predict = None"
    by (simp add: example_defs model_defs)
  have b: "to_keep_ind resample_pipeline = None" "outliers resample_pipeline = None"
    by (simp_all add: example_defs)
  have s: "spec_predict_steps (butlast (steps resample_pipeline)) X3 (None, None)
       = (Inr (PyList [PyInt 4, PyInt 6]),
          [(''scale'', Est (scaler\<lparr>calls := [Transform]\<rparr>)),
           (''rm'', Est (remover\<lparr>calls := [Transform]\<rparr>))],
          (Some (PyList [PyInt 1, PyInt 2]), Some (PyList [PyInt 0])))"
    by (simp add: example_defs model_defs)
  from t [THEN conjunct1] d b s have e: "predict X3 [] resample_pipeline
      = call_final (resample_pipeline\<lparr>steps :=
            [(''scale'', Est (scaler\<lparr>calls := [Transform]\<rparr>)),
             (''rm'', Est (remover\<lparr>calls := [Transform]\<rparr>))] @ [last (steps resample_pipeline)],
          to_keep_ind := Some (PyList [PyInt 1, PyInt 2]),
          outliers := Some (PyList [PyInt 0])\<rparr>) Predict [PyList [PyInt 4, PyInt 6]] []"
    by simp
  have k: "to_keep_ind (snd (predict X3 [] resample_pipeline)) = Some (PyList [PyInt 1, PyInt 2])"
    "outliers (snd (predict X3 [] resample_pipeline)) = Some (PyList [PyInt 0])"
    unfolding e
    using t [THEN conjunct2, THEN conjunct2, THEN conjunct1]
      t [THEN conjunct2, THEN conjunct2, THEN conjunct2, THEN conjunct1]
    by simp_all
  have a: "fst (predict X3 [] resample_pipeline) = Inr (PyList [PyInt 4, PyInt 6])"
    unfolding e by (simp add: example_defs model_defs)
  have len: "length (steps resample_pipeline) = 3" by (simp add: example_defs)
  have h0: "map (history resample_pipeline) [0, 1, 2] = [[], [], []]"
    by (simp add: history_def example_defs)
  have sk: "\<not> is_skipped (snd (steps resample_pipeline ! 0))"
    "\<not> is_skipped (snd (steps resample_pipeline ! 1))"
    "\<not> is_skipped (snd (steps resample_pipeline ! 2))"
    by (simp_all add: example_defs)
  note h = t [THEN conjunct2, THEN conjunct2, THEN conjunct2, THEN conjunct2, THEN conjunct2,
      THEN conjunct2, THEN conjunct1, THEN mp, OF a, unfolded len]
  have h1: "map (history (snd (predict X3 [] resample_pipeline))) [0, 1, 2]
       = [[Transform], [Transform], [Predict]]"
    using h h0 sk by simp
  show ?thesis using d b s a k h0 h1 by simp
qed

text \<open>
  C4 as the specification states it fails: the resampler of this pipeline returns
  \<^verbatim>\<open>None\<close> as kept-row indices and an empty list of outliers, and after the call the
  pipeline has recorded neither: both attributes are still unset.
\<close>

theorem returned_indices_not_recorded_counterexample:
  "hasattr (snd (steps scale_keeper_pipeline ! 1)) FitResample
   \<and> fst (invoke keeper Transform [PyList [PyInt 2, PyInt 4, PyInt 6]] [])
       = Inr (PyTuple [PyList [PyInt 2, PyInt 4, PyInt 6], PyNone, PyList []])
   \<and> fst (predict X3 [] scale_keeper_pipeline) = Inr (PyList [PyInt 2, PyInt 4, PyInt 6])
   \<and> to_keep_ind (snd (predict X3 [] scale_keeper_pipeline)) = None
   \<and> outliers (snd (predict X3 [] scale_keeper_pipeline)) = None"
  by (simp add: example_defs model_defs)

section \<open>What fitting does\<close>





lemma p_fit_spec_total:
  "p_fit h X y kws p =
     (case p_validate_steps h p of
        Some ex \<Rightarrow> (Inl ex, p)
      | None \<Rightarrow>
          (case route_params kws (init_params (steps p)) of
             Inl ex \<Rightarrow> (Inl ex, p)
           | Inr fps \<Rightarrow>
               (case spec_fit_steps h (mem_set p) fps (butlast (steps p)) X y of
                  (Inl ex, ss') \<Rightarrow> (Inl ex, p\<lparr>steps := ss' @ [last (steps p)]\<rparr>)
                | (Inr (X', y'), ss') \<Rightarrow>
                    (Inr (X', y',
                          if is_skipped (snd (last (steps p))) then []
                          else the (fps (fst (last (steps p))))),
                     p\<lparr>steps := ss' @ [last (steps p)]\<rparr>))))"
proof (cases "p_validate_steps h p")
  case (Some ex)
  then show ?thesis by (simp add: p_fit_def)
next
  case None
  show ?thesis
  proof (cases "route_params kws (init_params (steps p))")
    case (Inl ex)
    with None show ?thesis by (simp add: p_fit_def)
  next
    case (Inr fps)
    from p_fit_spec [OF None Inr, of X y] None Inr show ?thesis by simp
  qed
qed



text \<open>
  C9, as amended. When the final estimator (the last step, \<^verbatim>\<open>None\<close> read as
  \<^verbatim>\<open>'passthrough'\<close>) is not \<^verbatim>\<open>'passthrough'\<close> and has no \<^verbatim>\<open>fit_resample\<close>,
  \<^verbatim>\<open>fit_resample\<close> does what \<^verbatim>\<open>_fit\<close> does: it validates the steps, routes the fit
  parameters and runs the loop of fitting over the steps before the last one. An error of
  one of the three is the error of \<^verbatim>\<open>fit_resample\<close>; otherwise \<^verbatim>\<open>fit_resample\<close>
  returns \<^verbatim>\<open>None\<close>. No method of the final step is called: the last step, history of
  calls included, is the one the pipeline started with.
\<close>

theorem fit_resample_returns_None:
  assumes "final_estimator p = Inr s" and "s \<noteq> Passthrough" and "\<not> hasattr s FitResample"
  shows "fit_resample h X y kw p =
           (case p_validate_steps h p of
              Some ex \<Rightarrow> (Inl ex, p)
            | None \<Rightarrow>
                (case route_params kw (init_params (steps p)) of
                   Inl ex \<Rightarrow> (Inl ex, p)
                 | Inr fps \<Rightarrow>
                     (case spec_fit_steps h (mem_set p) fps (butlast (steps p)) X y of
                        (Inl ex, ss') \<Rightarrow> (Inl ex, p\<lparr>steps := ss' @ [last (steps p)]\<rparr>)
                      | (Inr r, ss') \<Rightarrow> (Inr PyNone, p\<lparr>steps := ss' @ [last (steps p)]\<rparr>))))
         \<and> fit_resample h X y kw p =
             (case p_fit h X y kw p of
                (Inl ex, p') \<Rightarrow> (Inl ex, p')
              | (Inr r, p') \<Rightarrow> (Inr PyNone, p'))
         \<and> last (steps (snd (fit_resample h X y kw p))) = last (steps p)"
proof -
  obtain r p' where f: "p_fit h X y kw p = (r, p')" by (cases "p_fit h X y kw p") auto
  have eq: "fit_resample h X y kw p =
           (case p_fit h X y kw p of
              (Inl ex, p') \<Rightarrow> (Inl ex, p')
            | (Inr r, p') \<Rightarrow> (Inr PyNone, p'))"
    using assms by (cases s) (auto simp: fit_resample_def split: sum.splits prod.splits)
  have "snd (fit_resample h X y kw p) = p'"
    unfolding eq f by (cases r) auto
  with p_fit_frame [OF f] have la: "last (steps (snd (fit_resample h X y kw p))) = last (steps p)"
    by simp
  have sp: "fit_resample h X y kw p =
           (case p_validate_steps h p of
              Some ex \<Rightarrow> (Inl ex, p)
            | None \<Rightarrow>
                (case route_params kw (init_params (steps p)) of
                   Inl ex \<Rightarrow> (Inl ex, p)
                 | Inr fps \<Rightarrow>
                     (case spec_fit_steps h (mem_set p) fps (butlast (steps p)) X y of
                        (Inl ex, ss') \<Rightarrow> (Inl ex, p\<lparr>steps := ss' @ [last (steps p)]\<rparr>)
                      | (Inr r, ss') \<Rightarrow> (Inr PyNone, p\<lparr>steps := ss' @ [last (steps p)]\<rparr>))))"
    unfolding eq p_fit_spec_total [of h X y kw p]
    by (simp split: option.splits sum.splits prod.splits)
  from sp eq la show ?thesis by blast
qed

theorem fit_resample_returns_None_witness:
  "final_estimator plain_pipeline = Inr (Est regressor)
   \<and> Est regressor \<noteq> Passthrough \<and> \<not> hasattr (Est regressor) FitResample
   \<and> p_validate_steps example_host plain_pipeline = None
   \<and> route_params [] (init_params (steps plain_pipeline)) = Inr (init_params (steps plain_pipeline))
   \<and> spec_fit_steps example_host (mem_set plain_pipeline) (init_params (steps plain_pipeline))
         (butlast (steps plain_pipeline)) X3 y3
       = (Inr (PyList [PyInt 2, PyInt 4, PyInt 6], y3),
          [(''scale'', Est (scaler\<lparr>st := PyStr ''fitted'', calls := [Fit, Transform]\<rparr>))])
   \<and> fit_resample example_host X3 y3 [] plain_pipeline
       = (Inr PyNone,
          plain_pipeline\<lparr>steps :=
            [(''scale'', Est (scaler\<lparr>st := PyStr ''fitted'', calls := [Fit, Transform]\<rparr>)),
             (''reg'', Est regressor)]\<rparr>)
   \<and> last (steps (snd (fit_resample example_host X3 y3 [] plain_pipeline))) = (''reg'', Est regressor)"
proof -
  have a: "final_estimator plain_pipeline = Inr (Est regressor)"
    by (simp add: example_defs final_estimator_def)
  have b: "Est regressor \<noteq> Passthrough" by simp
  have c: "\<not> hasattr (Est regressor) FitResample" by (simp add: example_defs)
  have v: "p_validate_steps example_host plain_pipeline = None"
    by (simp add: example_defs model_defs)
  have r: "route_params [] (init_params (steps plain_pipeline))
      = Inr (init_params (steps plain_pipeline))" by simp
  have sp: "spec_fit_steps example_host (mem_set plain_pipeline) (init_params (steps plain_pipeline))
         (butlast (steps plain_pipeline)) X3 y3
       = (Inr (PyList [PyInt 2, PyInt 4, PyInt 6], y3),
          [(''scale'', Est (scaler\<lparr>st := PyStr ''fitted'', calls := [Fit, Transform]\<rparr>))])"
    by (simp add: example_defs model_defs init_params_def)
  have g: "last (steps plain_pipeline) = (''reg'', Est regressor)"
    by (simp add: example_defs)
  note t = fit_resample_returns_None [OF a b c, of example_host X3 y3 "[]"]
  have e1: "fit_resample example_host X3 y3 [] plain_pipeline
       = (Inr PyNone,
          plain_pipeline\<lparr>steps :=
            [(''scale'', Est (scaler\<lparr>st := PyStr ''fitted'', calls := [Fit, Transform]\<rparr>)),
             (''reg'', Est regressor)]\<rparr>)"
    using t [THEN conjunct1] v r sp g by simp
  have e2: "last (steps (snd (fit_resample example_host X3 y3 [] plain_pipeline)))
             = (''reg'', Est regressor)"
    using t [THEN conjunct2, THEN conjunct2] g by simp
  show ?thesis
    by (intro conjI) (rule a b c v r sp e1 e2)+
qed

text \<open>
  C9 as the specification states it fails. A final step \<^verbatim>\<open>None\<close> is neither
  \<^verbatim>\<open>'passthrough'\<close> nor has it \<^verbatim>\<open>fit_resample\<close>, and \<^verbatim>\<open>fit_resample\<close> returns the
  transformed features. A final step without \<^verbatim>\<open>fit\<close> meets the condition too, and
  \<^verbatim>\<open>fit_resample\<close> raises the type error of validation.
\<close>

theorem fit_resample_None_final_counterexample:
  "snd (last (steps none_final_pipeline)) = StepNone
   \<and> snd (last (steps none_final_pipeline)) \<noteq> Passthrough
   \<and> \<not> hasattr (snd (last (steps none_final_pipeline))) FitResample
   \<and> fst (fit_resample example_host X3 y3 [] none_final_pipeline)
       = Inr (PyList [PyInt 2, PyInt 4, PyInt 6])
   \<and> snd (last (steps no_fit_final_pipeline)) = Est predict_only
   \<and> \<not> hasattr (Est predict_only) FitResample
   \<and> fst (fit_resample example_host X3 y3 [] no_fit_final_pipeline) = Inl TypeError"
  by (simp add: example_defs model_defs)

section \<open>Where the fit parameters go\<close>






section \<open>Comparison with the baseline pipeline\<close>

text \<open>
  A step that the generator yields before the last one is one of the intermediate steps.
  On steps without \<^verbatim>\<open>fit_resample\<close> that are no pipelines the two validations agree,
  and so do the loops when the two rules for cloning agree, that is, unless the caching
  location is the empty string.
\<close>

lemma base_iter_nonfinal:
  assumes "(i, n, t) \<in> set (base_iter ss False fpass)"
  shows "t \<in> set (butlast (map snd ss))"
proof -
  from base_iter_mem [OF assms] have i: "i < length ss - 1" and s: "ss ! i = (n, t)" by auto
  from i have "butlast (map snd ss) ! i = t" using s by (simp add: nth_butlast)
  moreover from i have "i < length (butlast (map snd ss))" by simp
  ultimately show ?thesis by (metis nth_mem)
qed

lemma check_transformers_baseline:
  assumes "\<forall>t\<in>set ts. \<not> hasattr t FitResample \<and> \<not> (case t of Est e \<Rightarrow> is_pipeline e | _ \<Rightarrow> False)"
  shows "check_transformers ts = baseline_check_transformers ts"
  using assms
proof (induction ts)
  case Nil
  show ?case by simp
next
  case (Cons t ts)
  then have "check_transformer t = baseline_check_transformer t"
    by (simp add: check_transformer_def baseline_check_transformer_def)
  with Cons show ?case by (simp split: option.split)
qed

lemma validate_steps_baseline:
  assumes "\<forall>t\<in>set (butlast (map snd (steps p))).
             \<not> hasattr t FitResample \<and> \<not> (case t of Est e \<Rightarrow> is_pipeline e | _ \<Rightarrow> False)"
  shows "p_validate_steps h p = baseline_validate_steps h p"
  using check_transformers_baseline [OF assms]
  by (simp add: p_validate_steps_def baseline_validate_steps_def split: list.split option.split)

lemma mem_set_caching: "memory p \<noteq> Some [] \<Longrightarrow> mem_set p = caching_enabled p"
  by (cases "memory p") (auto simp: mem_set_def caching_enabled_def)

lemma baseline_fit_step_memory:
  "baseline_fit_step h fps item X y p = (r, p1) \<Longrightarrow> memory p1 = memory p"
  by (auto simp: baseline_fit_step_def set_step_def
      split: prod.splits step.splits option.splits sum.splits if_splits)

lemma fit_step_baseline:
  assumes "is_skipped t \<or> (hasattr t Transform \<and> \<not> hasattr t FitResample)"
    and "memory p \<noteq> Some []"
  shows "\<exists>ft'. fit_step h fps (idx, name, t) X y ft p =
           (case baseline_fit_step h fps (idx, name, t) X y p of
              (Inl ex, p') \<Rightarrow> (Inl ex, p')
            | (Inr X', p') \<Rightarrow> (Inr (X', y, ft'), p'))"
proof (cases t)
  case StepNone
  then show ?thesis by (simp add: fit_step_def baseline_fit_step_def)
next
  case Passthrough
  then show ?thesis by (simp add: fit_step_def baseline_fit_step_def)
next
  case (Est e)
  with assms have a: "Transform \<in> set (attrs e)" "FitResample \<notin> set (attrs e)" by auto
  note m = mem_set_caching [OF assms(2)]
  show ?thesis
  proof (cases "fps name")
    case None
    with Est a show ?thesis by (simp add: fit_step_def baseline_fit_step_def attrs_clone)
  next
    case (Some kw)
    obtain r f where r: "fit_transform_one h (if mem_set p then clone h e else e) X y kw = (r, f)"
      by (cases "fit_transform_one h (if mem_set p then clone h e else e) X y kw") auto
    show ?thesis
    proof (cases r)
      case (Inl ex)
      with Est a Some r m show ?thesis
        by (cases "caching_enabled p")
           (simp_all add: fit_step_def baseline_fit_step_def attrs_clone)
    next
      case (Inr X')
      with Est a Some r m show ?thesis
        by (cases "caching_enabled p")
           (simp_all add: fit_step_def baseline_fit_step_def attrs_clone)
    qed
  qed
qed

lemma fit_loop_baseline:
  assumes "\<forall>item\<in>set items. is_skipped (snd (snd item))
             \<or> (hasattr (snd (snd item)) Transform \<and> \<not> hasattr (snd (snd item)) FitResample)"
    and "memory p \<noteq> Some []"
  shows "fit_loop h fps items X y ft p =
           (case baseline_fit_loop h fps items X y p of
              (Inl ex, p') \<Rightarrow> (Inl ex, p')
            | (Inr X', p') \<Rightarrow> (Inr (X', y), p'))"
  using assms
proof (induction items arbitrary: X ft p)
  case Nil
  show ?case by simp
next
  case (Cons item items)
  obtain idx name t where item: "item = (idx, name, t)" by (cases item) auto
  from Cons.prems item
  have "is_skipped t \<or> (hasattr t Transform \<and> \<not> hasattr t FitResample)" by simp
  from fit_step_baseline [OF this Cons.prems(2), of h fps idx name X y ft]
  obtain ft' where s: "fit_step h fps item X y ft p =
           (case baseline_fit_step h fps item X y p of
              (Inl ex, p') \<Rightarrow> (Inl ex, p')
            | (Inr X', p') \<Rightarrow> (Inr (X', y, ft'), p'))"
    unfolding item by blast
  obtain r1 p1 where b: "baseline_fit_step h fps item X y p = (r1, p1)"
    by (cases "baseline_fit_step h fps item X y p") auto
  from Cons.prems have rest: "\<forall>item\<in>set items. is_skipped (snd (snd item))
             \<or> (hasattr (snd (snd item)) Transform \<and> \<not> hasattr (snd (snd item)) FitResample)"
    by simp
  from baseline_fit_step_memory [OF b] Cons.prems(2) have m1: "memory p1 \<noteq> Some []" by simp
  show ?case
  proof (cases r1)
    case (Inl ex)
    with s b show ?thesis by simp
  next
    case (Inr X1)
    with s b Cons.IH [OF rest m1, of X1 ft'] show ?thesis by simp
  qed
qed

lemma p_fit_baseline:
  assumes "\<forall>t\<in>set (butlast (map snd (steps p))).
             \<not> hasattr t FitResample \<and> \<not> (case t of Est e \<Rightarrow> is_pipeline e | _ \<Rightarrow> False)"
    and mem: "memory p \<noteq> Some []"
  shows "p_fit h X y kw p =
           (case baseline_p_fit h X y kw p of
              (Inl ex, p') \<Rightarrow> (Inl ex, p')
            | (Inr (X', fp), p') \<Rightarrow> (Inr (X', y, fp), p'))"
proof (cases "p_validate_steps h p")
  case (Some ex)
  with validate_steps_baseline [OF assms(1), of h] have "baseline_validate_steps h p = Some ex"
    by simp
  with Some show ?thesis
    by (simp add: p_fit_def baseline_p_fit_def)
next
  case None
  with validate_steps_baseline [OF assms(1), of h] have bv: "baseline_validate_steps h p = None"
    by simp
  show ?thesis
  proof (cases "route_params kw (init_params (steps p))")
    case (Inl ex)
    with None bv show ?thesis by (simp add: p_fit_def baseline_p_fit_def)
  next
    case (Inr fps)
    have ct: "check_transformers (butlast (map snd (steps p))) = None"
      using None
      by (simp add: p_validate_steps_def list.case_eq_if split: if_splits option.splits)
    have items: "\<forall>item\<in>set (p_iter p False False False). is_skipped (snd (snd item))
             \<or> (hasattr (snd (snd item)) Transform \<and> \<not> hasattr (snd (snd item)) FitResample)"
    proof
      fix item assume "item \<in> set (p_iter p False False False)"
      then have "(fst item, fst (snd item), snd (snd item)) \<in> set (base_iter (steps p) False False)"
        by (simp add: p_iter_def)
      from base_iter_nonfinal [OF this]
      have m: "snd (snd item) \<in> set (butlast (map snd (steps p)))" .
      with assms(1) have nr: "\<not> hasattr (snd (snd item)) FitResample" by blast
      from ct m have "is_skipped (snd (snd item))
          \<or> (hasattr (snd (snd item)) Transform \<or> hasattr (snd (snd item)) FitResample)"
        unfolding check_transformers_eq by (auto split: if_splits)
      with nr show "is_skipped (snd (snd item))
             \<or> (hasattr (snd (snd item)) Transform \<and> \<not> hasattr (snd (snd item)) FitResample)"
        by blast
    qed
    have it: "p_iter p False False False = base_iter (steps p) False False"
      by (simp add: p_iter_def)
    note l = fit_loop_baseline [OF items mem, of h fps X y None, unfolded it]
    obtain r1 p1 where b: "baseline_fit_loop h fps (base_iter (steps p) False False) X y p = (r1, p1)"
      by (cases "baseline_fit_loop h fps (base_iter (steps p) False False) X y p") auto
    show ?thesis
    proof (cases r1)
      case (Inl ex)
      with None bv Inr l b it show ?thesis by (simp add: p_fit_def baseline_p_fit_def)
    next
      case r: (Inr X1)
      with None bv Inr l b it show ?thesis
        by (simp add: p_fit_def baseline_p_fit_def split: sum.splits step.splits option.splits)
    qed
  qed
qed

lemma fit_baseline:
  assumes "\<forall>t\<in>set (butlast (map snd (steps p))).
             \<not> hasattr t FitResample \<and> \<not> (case t of Est e \<Rightarrow> is_pipeline e | _ \<Rightarrow> False)"
    and "memory p \<noteq> Some []"
  shows "fit h X y kw p = baseline_fit h X y kw p"
proof -
  obtain r1 p1 where b: "baseline_p_fit h X y kw p = (r1, p1)"
    by (cases "baseline_p_fit h X y kw p") auto
  show ?thesis
  proof (cases r1)
    case (Inl ex)
    with p_fit_baseline [OF assms, of h X y kw] b show ?thesis
      by (simp add: fit_def baseline_fit_def)
  next
    case (Inr v)
    obtain X1 fp where "v = (X1, fp)" by (cases v) auto
    with Inr p_fit_baseline [OF assms, of h X y kw] b show ?thesis
      by (simp add: fit_def baseline_fit_def)
  qed
qed

lemma predict_step_baseline:
  assumes "\<not> hasattr t FitResample"
  shows "predict_step (idx, name, t) Xt p = baseline_apply_step (idx, name, t) Xt p"
  using assms by (cases t) (simp_all add: predict_step_def baseline_apply_step_def)

lemma predict_loop_baseline:
  assumes "\<forall>item\<in>set items. \<not> hasattr (snd (snd item)) FitResample"
  shows "predict_loop items Xt p = baseline_apply_loop items Xt p"
  using assms
proof (induction items arbitrary: Xt p)
  case Nil
  show ?case by simp
next
  case (Cons item items)
  obtain idx name t where item: "item = (idx, name, t)" by (cases item) auto
  from Cons.prems item have "\<not> hasattr t FitResample" by simp
  from predict_step_baseline [OF this] item
  have s: "predict_step item Xt p = baseline_apply_step item Xt p" by simp
  from Cons.prems have "\<forall>item\<in>set items. \<not> hasattr (snd (snd item)) FitResample" by simp
  from Cons.IH [OF this] s show ?case
    by (simp split: prod.splits sum.splits)
qed

lemma predict_baseline:
  assumes "\<forall>t\<in>set (butlast (map snd (steps p))).
             \<not> hasattr t FitResample \<and> \<not> (case t of Est e \<Rightarrow> is_pipeline e | _ \<Rightarrow> False)"
  shows "predict X kw p = baseline_predict X kw p"
proof -
  have it: "p_iter p False True False = base_iter (steps p) False True"
    by (simp add: p_iter_def)
  have "\<forall>item\<in>set (base_iter (steps p) False True). \<not> hasattr (snd (snd item)) FitResample"
  proof
    fix item assume "item \<in> set (base_iter (steps p) False True)"
    then have "(fst item, fst (snd item), snd (snd item)) \<in> set (base_iter (steps p) False True)"
      by simp
    from base_iter_nonfinal [OF this] assms
    show "\<not> hasattr (snd (snd item)) FitResample" by blast
  qed
  from predict_loop_baseline [OF this] show ?thesis
    by (simp add: predict_def baseline_predict_def it split: option.split)
qed

text \<open>
  C2, as amended. For every pipeline whose intermediate steps neither expose
  \<^verbatim>\<open>fit_resample\<close> nor are pipelines themselves, and whose caching location is not the
  empty string, \<^verbatim>\<open>fit\<close> and \<^verbatim>\<open>predict\<close> give the results and leave the pipeline in
  the state of the baseline pipeline on the same steps and inputs: \<^verbatim>\<open>_fit\<close> threads the
  features through each step's \<^verbatim>\<open>_fit_transform_one\<close> in order as the baseline does,
  hands the labels on unchanged, and the final estimator is fitted on the transformed
  features.
\<close>

theorem transform_only_pipeline_matches_baseline:
  assumes "\<forall>t\<in>set (butlast (map snd (steps p))).
             \<not> hasattr t FitResample \<and> \<not> (case t of Est e \<Rightarrow> is_pipeline e | _ \<Rightarrow> False)"
    and "memory p \<noteq> Some []"
  shows "fit h X y kw p = baseline_fit h X y kw p
       \<and> predict X kw p = baseline_predict X kw p
       \<and> p_fit h X y kw p =
           (case baseline_p_fit h X y kw p of
              (Inl ex, p') \<Rightarrow> (Inl ex, p')
            | (Inr (X', fp), p') \<Rightarrow> (Inr (X', y, fp), p'))"
  using fit_baseline [OF assms] predict_baseline [OF assms(1)] p_fit_baseline [OF assms]
  by blast

theorem transform_only_pipeline_matches_baseline_witness:
  "butlast (map snd (steps plain_pipeline)) = [Est scaler]
   \<and> \<not> hasattr (Est scaler) FitResample \<and> \<not> is_pipeline scaler
   \<and> memory plain_pipeline \<noteq> Some []
   \<and> fit example_host X3 y3 [] plain_pipeline = baseline_fit example_host X3 y3 [] plain_pipeline
   \<and> fst (baseline_fit example_host X3 y3 [] plain_pipeline) = Inr ()
   \<and> step_states (snd (baseline_fit example_host X3 y3 [] plain_pipeline)) = [PyStr ''fitted'', y3]
   \<and> predict X3 [] plain_pipeline = baseline_predict X3 [] plain_pipeline
   \<and> fst (baseline_predict X3 [] plain_pipeline) = Inr (PyList [PyInt 2, PyInt 4, PyInt 6])
   \<and> fst (p_fit example_host X3 y3 [] plain_pipeline)
       = Inr (PyList [PyInt 2, PyInt 4, PyInt 6], y3, [])
   \<and> butlast (map snd (steps cached_pipeline)) = [Est fitted_counter]
   \<and> \<not> hasattr (Est fitted_counter) FitResample \<and> \<not> is_pipeline fitted_counter
   \<and> memory cached_pipeline \<noteq> Some []
   \<and> fit example_host X3 y3 [] cached_pipeline = baseline_fit example_host X3 y3 [] cached_pipeline
   \<and> step_states (snd (fit example_host X3 y3 [] cached_pipeline)) = [PyInt 1, y3]"
proof -
  have a: "butlast (map snd (steps plain_pipeline)) = [Est scaler]" by (simp add: example_defs)
  have b: "\<not> hasattr (Est scaler) FitResample" by (simp add: example_defs)
  have c: "\<not> is_pipeline scaler" by (simp add: example_defs)
  have m: "memory plain_pipeline \<noteq> Some []" by (simp add: example_defs)
  have H: "\<forall>t\<in>set (butlast (map snd (steps plain_pipeline))).
             \<not> hasattr t FitResample \<and> \<not> (case t of Est e \<Rightarrow> is_pipeline e | _ \<Rightarrow> False)"
    unfolding a using b c by simp
  note t = transform_only_pipeline_matches_baseline [OF H m, of example_host X3 y3 "[]"]
  have d: "fit example_host X3 y3 [] plain_pipeline = baseline_fit example_host X3 y3 [] plain_pipeline"
    by (rule t [THEN conjunct1])
  have e: "predict X3 [] plain_pipeline = baseline_predict X3 [] plain_pipeline"
    by (rule t [THEN conjunct2, THEN conjunct1])
  have f: "fst (baseline_fit example_host X3 y3 [] plain_pipeline) = Inr ()"
    by (simp add: example_defs model_defs baseline_defs)
  have f2: "step_states (snd (baseline_fit example_host X3 y3 [] plain_pipeline))
      = [PyStr ''fitted'', y3]"
    by (simp add: example_defs model_defs baseline_defs)
  have g: "fst (baseline_predict X3 [] plain_pipeline) = Inr (PyList [PyInt 2, PyInt 4, PyInt 6])"
    by (simp add: example_defs model_defs baseline_defs)
  have i: "fst (p_fit example_host X3 y3 [] plain_pipeline)
       = Inr (PyList [PyInt 2, PyInt 4, PyInt 6], y3, [])"
    by (simp add: example_defs model_defs)
  have a': "butlast (map snd (steps cached_pipeline)) = [Est fitted_counter]"
    by (simp add: example_defs)
  have b': "\<not> hasattr (Est fitted_counter) FitResample" by (simp add: example_defs)
  have c': "\<not> is_pipeline fitted_counter" by (simp add: example_defs)
  have m': "memory cached_pipeline \<noteq> Some []" by (simp add: example_defs)
  have H': "\<forall>t\<in>set (butlast (map snd (steps cached_pipeline))).
             \<not> hasattr t FitResample \<and> \<not> (case t of Est e \<Rightarrow> is_pipeline e | _ \<Rightarrow> False)"
    unfolding a' using b' c' by simp
  note t' = transform_only_pipeline_matches_baseline [OF H' m', of example_host X3 y3 "[]"]
  have d': "fit example_host X3 y3 [] cached_pipeline
      = baseline_fit example_host X3 y3 [] cached_pipeline"
    by (rule t' [THEN conjunct1])
  have f': "step_states (snd (fit example_host X3 y3 [] cached_pipeline)) = [PyInt 1, y3]"
    unfolding d' by (simp add: example_defs model_defs baseline_defs)
  show ?thesis
    by (intro conjI) (rule a b c m d f f2 e g i a' b' c' m' d' f')+
qed

text \<open>
  C2 as the specification states it fails. A pipeline of the host framework as
  intermediate step has \<^verbatim>\<open>fit\<close> and \<^verbatim>\<open>transform\<close> and no \<^verbatim>\<open>fit_resample\<close>; the
  baseline fits it, and \<^verbatim>\<open>fit\<close> raises the type error of the guard against nested
  pipelines. With the empty string as caching location the baseline fits a clone of the
  step and \<^verbatim>\<open>fit\<close> the step itself, so an object that was fitted once before counts two
  fits instead of one. With a transformer of the host framework's kind, whose
  \<^verbatim>\<open>transform\<close> takes the features alone, the baseline's \<^verbatim>\<open>transform\<close> returns the
  transformed features while this pipeline passes two arguments and the call raises a type
  error.
\<close>

theorem nested_pipeline_differs_from_baseline_counterexample:
  "butlast (map snd (steps nested_pipeline)) = [Est inner_pipeline]
   \<and> \<not> hasattr (Est inner_pipeline) FitResample
   \<and> hasattr (Est inner_pipeline) Fit \<and> hasattr (Est inner_pipeline) Transform
   \<and> fst (baseline_fit example_host X3 y3 [] nested_pipeline) = Inr ()
   \<and> fit example_host X3 y3 [] nested_pipeline = (Inl TypeError, nested_pipeline)
   \<and> butlast (map snd (steps empty_location_pipeline)) = [Est fitted_counter]
   \<and> \<not> hasattr (Est fitted_counter) FitResample
   \<and> step_states (snd (baseline_fit example_host X3 y3 [] empty_location_pipeline))
       = [PyInt 1, y3]
   \<and> step_states (snd (fit example_host X3 y3 [] empty_location_pipeline)) = [PyInt 2, y3]
   \<and> \<not> hasattr (Est scaler) FitResample \<and> hasattr (Est scaler) Transform
   \<and> fst (baseline_transform X3 scaler_passthrough_pipeline)
       = Inr (PyList [PyInt 2, PyInt 4, PyInt 6])
   \<and> fst (transform X3 y3 scaler_passthrough_pipeline) = Inl TypeError"
  by (simp add: example_defs model_defs baseline_defs)

end
